theory Spec2Isabelle
  imports Main "HOL-Library.Sublist"
begin

section \<open>The bilingual PII detector of \<^verbatim>\<open>chatbot_api/pii_utils.py\<close>\<close>

text \<open>
  A shallow embedding of the class \<^verbatim>\<open>BilingualPIIDetector\<close>. The language model behind
  \<^verbatim>\<open>detect_language\<close>, the two spaCy pipelines and the regular-expression engine
  (\<^verbatim>\<open>re.finditer\<close>) are library code outside the repository: they are the fields of an
  environment record, arbitrary functions of their arguments. A Python string is a
  \<^typ>\<open>string\<close>, one \<^typ>\<open>char\<close> per code point below 256; character offsets are natural
  numbers, as spaCy and \<^verbatim>\<open>re\<close> produce them. An exception is the \<open>Inl\<close> of a sum.
  Every operation also returns the list of external calls it made, in order. The functions
  \<^verbatim>\<open>detect_pii\<close>, \<^verbatim>\<open>redact_pii\<close>, \<^verbatim>\<open>contains_pii\<close> and \<^verbatim>\<open>get_pii_report\<close> of the module only pass
  their arguments to the methods of the one detector the module creates; the record \<open>self\<close>
  stands for that detector.
\<close>

subsection \<open>Data\<close>

datatype error =
    ValueError string
  | IndexError
  | ExternalError string

text \<open>The pydantic model \<^verbatim>\<open>Language\<close>; its float field \<^verbatim>\<open>confidence\<close> is never read.\<close>

record Language =
  language :: string

text \<open>One element of spaCy's \<^verbatim>\<open>doc.ents\<close>: \<^verbatim>\<open>text\<close>, \<^verbatim>\<open>label_\<close>, \<^verbatim>\<open>start_char\<close>, \<^verbatim>\<open>end_char\<close>.\<close>

record ent =
  ent_text :: string
  ent_label :: string
  start_char :: nat
  end_char :: nat

text \<open>One match object of \<^verbatim>\<open>re.finditer\<close>: \<^verbatim>\<open>group()\<close>, \<^verbatim>\<open>start()\<close>, \<^verbatim>\<open>end()\<close>.\<close>

record rmatch =
  m_group :: string
  m_start :: nat
  m_end :: nat

text \<open>The dictionary built for each detected entity (keys text, label, start, end, source, language).\<close>

record entity =
  e_text :: string
  e_label :: string
  e_start :: nat
  e_end :: nat
  e_source :: string
  e_language :: string

datatype call = LLM_invoke string | NLP_en string | NLP_fr string

record env =
  llm :: "string \<Rightarrow> error + Language"
  nlp_en :: "string \<Rightarrow> error + ent list"
  nlp_fr :: "string \<Rightarrow> error + ent list"
  finditer :: "string \<Rightarrow> string \<Rightarrow> rmatch list"

text \<open>The summary dictionary of \<^verbatim>\<open>get_pii_summary\<close>. The source builds \<^verbatim>\<open>entity_types\<close> as
  \<^verbatim>\<open>list(set(...))\<close>, whose order Python leaves open, so the field is a set.\<close>

record summary =
  has_confidential_info :: bool
  entities_found :: nat
  entity_types :: "string set"
  safe_text :: string
  details :: "entity list"

subsection \<open>Configuration of the detector\<close>

definition sensitive_labels_en :: "string set" where
  "sensitive_labels_en = {''PERSON''}"

definition sensitive_labels_fr :: "string set" where
  "sensitive_labels_fr = {''PER''}"

text \<open>A backslash cannot be written inside a string literal.\<close>

definition bs :: string where
  "bs = [CHR 0x5C]"

text \<open>\<^verbatim>\<open>self.regex_patterns\<close>: a dictionary, iterated in insertion order.\<close>

definition regex_patterns :: "(string \<times> string) list" where
  "regex_patterns =
    [(''EMAIL'', bs @ ''b[A-Za-z0-9._%+-]+@[A-Za-z0-9.-]+'' @ bs @ ''.[A-Z|a-z]{2,}'' @ bs @ ''b''),
     (''PHONE'', ''('' @ bs @ ''+?'' @ bs @ ''d{1,3}[-.'' @ bs @ ''s]?)?'' @ bs @ ''(?'' @ bs @ ''d{1,4}''
        @ bs @ '')?[-.'' @ bs @ ''s]?'' @ bs @ ''d{1,4}[-.'' @ bs @ ''s]?'' @ bs @ ''d{1,9}''),
     (''SSN'', bs @ ''b'' @ bs @ ''d{3}-'' @ bs @ ''d{2}-'' @ bs @ ''d{4}'' @ bs @ ''b''),
     (''CREDIT_CARD'', bs @ ''b'' @ bs @ ''d{4}[- ]?'' @ bs @ ''d{4}[- ]?'' @ bs @ ''d{4}[- ]?''
        @ bs @ ''d{4}'' @ bs @ ''b''),
     (''FRENCH_SSN'', bs @ ''b[12]'' @ bs @ ''d{12}'' @ bs @ ''b''),
     (''PASSPORT'', bs @ ''b[A-Z]{1,2}'' @ bs @ ''d{6,9}'' @ bs @ ''b'')]"

subsection \<open>String helpers of Python\<close>

text \<open>\<^verbatim>\<open>str.isspace\<close> on one character: the whitespace code points below 256.\<close>

definition isspace_char :: "char \<Rightarrow> bool" where
  "isspace_char c = ((of_char c :: nat) \<in> {9, 10, 11, 12, 13, 28, 29, 30, 31, 32, 133, 160})"

definition isspace :: "string \<Rightarrow> bool" where
  "isspace s = (s \<noteq> [] \<and> list_all isspace_char s)"

definition strip :: "string \<Rightarrow> string" where
  "strip s = rev (dropWhile isspace_char (rev (dropWhile isspace_char s)))"

text \<open>\<^verbatim>\<open>s.split(c)\<close> for a one-character separator.\<close>

fun split_on :: "char \<Rightarrow> string \<Rightarrow> string list" where
  "split_on c [] = [[]]"
| "split_on c (x # xs) =
     (if x = c then [] # split_on c xs
      else (case split_on c xs of [] \<Rightarrow> [[x]] | p # ps \<Rightarrow> (x # p) # ps))"

subsection \<open>\<^verbatim>\<open>detect_language\<close>\<close>

definition prompt :: "string \<Rightarrow> string" where
  \<open>prompt text =
    ''\<newline>''
    @ ''        Analyze the following text and determine if it's primarily in English or French.\<newline>''
    @ ''        Return ONLY a JSON object with the exact structure:\<newline>''
    @ ''        {\<newline>''
    @ ''            "language": "english" or "french",\<newline>''
    @ ''            "confidence": 0.95\<newline>''
    @ ''        }\<newline>''
    @ ''        \<newline>''
    @ ''        Text to analyze: "'' @ text @ ''"\<newline>''
    @ ''        \<newline>''
    @ ''        Consider:\<newline>''
    @ ''        - Vocabulary and word patterns\<newline>''
    @ ''        - Grammar structure\<newline>''
    @ ''        - Common phrases and expressions\<newline>''
    @ ''        - Language-specific characters or accents\<newline>''
    @ ''        \<newline>''
    @ ''        Return only the language used in the text.\<newline>''
    @ ''        ''\<close>

definition detect_language :: "env \<Rightarrow> string \<Rightarrow> (error + string) \<times> call list" where
  "detect_language self text =
     (case llm self (prompt text) of
        Inl err \<Rightarrow> (Inl err, [LLM_invoke (prompt text)])
      | Inr response \<Rightarrow> (Inr (language response), [LLM_invoke (prompt text)]))"

subsection \<open>\<^verbatim>\<open>detect_pii_entities\<close>\<close>

text \<open>The loop over \<^verbatim>\<open>doc.ents\<close> (lines 91 to 102).\<close>

fun ner_loop :: "string set \<Rightarrow> string \<Rightarrow> ent list \<Rightarrow> entity list \<Rightarrow> entity list" where
  "ner_loop sensitive_labels lang [] entities = entities"
| "ner_loop sensitive_labels lang (ent # ents) entities =
     ner_loop sensitive_labels lang ents
       (if ent_label ent \<in> sensitive_labels \<and> length (strip (ent_text ent)) > 2
           \<and> \<not> isspace (ent_text ent)
        then entities @ [\<lparr>e_text = ent_text ent, e_label = ent_label ent, e_start = start_char ent,
                          e_end = end_char ent, e_source = ''spacy'', e_language = lang\<rparr>]
        else entities)"

text \<open>The innermost loop with its \<^verbatim>\<open>break\<close> (lines 108 to 112).\<close>

fun overlap :: "rmatch \<Rightarrow> entity list \<Rightarrow> bool" where
  "overlap m [] = False"
| "overlap m (entity # entities) =
     (if \<not> (m_end m \<le> e_start entity \<or> m_start m \<ge> e_end entity) then True
      else overlap m entities)"

text \<open>The loop over the matches of one pattern (lines 106 to 122).\<close>

fun match_loop :: "string \<Rightarrow> string \<Rightarrow> rmatch list \<Rightarrow> entity list \<Rightarrow> entity list" where
  "match_loop pattern_name lang [] entities = entities"
| "match_loop pattern_name lang (m # ms) entities =
     match_loop pattern_name lang ms
       (if \<not> overlap m entities
        then entities @ [\<lparr>e_text = m_group m, e_label = pattern_name, e_start = m_start m,
                          e_end = m_end m, e_source = ''regex'', e_language = lang\<rparr>]
        else entities)"

text \<open>The loop over \<^verbatim>\<open>self.regex_patterns.items()\<close> (line 105).\<close>

fun pattern_loop ::
  "env \<Rightarrow> string \<Rightarrow> string \<Rightarrow> (string \<times> string) list \<Rightarrow> entity list \<Rightarrow> entity list" where
  "pattern_loop self text lang [] entities = entities"
| "pattern_loop self text lang ((pattern_name, pattern) # ps) entities =
     pattern_loop self text lang ps
       (match_loop pattern_name lang (finditer self pattern text) entities)"

text \<open>The removal of duplicates (lines 125 to 131).\<close>

fun unique_loop ::
  "entity list \<Rightarrow> (string \<times> nat \<times> nat) set \<Rightarrow> entity list \<Rightarrow> entity list" where
  "unique_loop [] seen unique_entities = unique_entities"
| "unique_loop (entity # entities) seen unique_entities =
     (let key = (e_text entity, e_start entity, e_end entity)
      in if key \<notin> seen then unique_loop entities (insert key seen) (unique_entities @ [entity])
         else unique_loop entities seen unique_entities)"

text \<open>Lines 104 to 133: from the entities kept from the recognizer to the returned list.
  Python's \<^verbatim>\<open>sorted\<close> is stable, as \<^const>\<open>sort_key\<close> is.\<close>

definition aggregate :: "env \<Rightarrow> string \<Rightarrow> string \<Rightarrow> entity list \<Rightarrow> entity list" where
  "aggregate self text lang entities =
     sort_key e_start (unique_loop (pattern_loop self text lang regex_patterns entities) {} [])"

text \<open>Lines 81 to 102: the recognizer of the language is run and its person names are kept.\<close>

definition recognize :: "env \<Rightarrow> string \<Rightarrow> string \<Rightarrow> (error + entity list) \<times> call list" where
  "recognize self text lang =
     (if lang = ''en'' then
        (case nlp_en self text of
           Inl err \<Rightarrow> (Inl err, [NLP_en text])
         | Inr ents \<Rightarrow> (Inr (ner_loop sensitive_labels_en lang ents []), [NLP_en text]))
      else
        (case nlp_fr self text of
           Inl err \<Rightarrow> (Inl err, [NLP_fr text])
         | Inr ents \<Rightarrow> (Inr (ner_loop sensitive_labels_fr lang ents []), [NLP_fr text])))"

definition detect_pii_entities :: "env \<Rightarrow> string \<Rightarrow> (error + entity list) \<times> call list" where
  "detect_pii_entities self text =
     (if text = [] \<or> strip text = [] then (Inr [], [])
      else
        (case detect_language self text of
           (Inl err, calls) \<Rightarrow> (Inl err, calls)
         | (Inr lang, calls) \<Rightarrow>
             (case recognize self text lang of
                (Inl err, calls') \<Rightarrow> (Inl err, calls @ calls')
              | (Inr entities, calls') \<Rightarrow>
                  (Inr (aggregate self text lang entities), calls @ calls'))))"

subsection \<open>\<^verbatim>\<open>_get_replacement\<close> and \<^verbatim>\<open>redact_pii\<close>\<close>

definition get_replacement :: "entity \<Rightarrow> string \<Rightarrow> error + string" where
  "get_replacement entity strategy =
     (if strategy = ''redact'' then Inr (''[REDACTED_'' @ e_label entity @ '']'')
      else if strategy = ''mask'' then
        (if e_label entity \<in> {''EMAIL'', ''PHONE''} then
           (let text = e_text entity in
            if CHR ''@'' \<in> set text then
              (case split_on CHR ''@'' text of
                 p0 # p1 # _ \<Rightarrow> Inr (take 2 p0 @ ''***@'' @ p1)
               | _ \<Rightarrow> Inl IndexError)
            else
              Inr (if length text > 4 then ''***-***-'' @ drop (length text - 4) text
                   else ''***''))
         else Inr (''***'' @ e_label entity @ ''***''))
      else if strategy = ''block'' then
        Inl (ValueError (''Confidential information detected and blocked: ''
                           @ e_label entity @ '' - '' @ e_text entity))
      else Inr (''[REDACTED_'' @ e_label entity @ '']''))"

text \<open>The body of the loop of \<^verbatim>\<open>redact_pii\<close>, over an order already chosen (lines 142 to 147).
  A slice \<^verbatim>\<open>s[:a]\<close> is \<^term>\<open>take a s\<close> and \<^verbatim>\<open>s[b:]\<close> is \<^term>\<open>drop b s\<close>, also beyond the end.\<close>

fun redact_loop :: "string \<Rightarrow> entity list \<Rightarrow> string \<Rightarrow> error + string" where
  "redact_loop redacted_text [] strategy = Inr redacted_text"
| "redact_loop redacted_text (entity # entities) strategy =
     (case get_replacement entity strategy of
        Inl err \<Rightarrow> Inl err
      | Inr replacement \<Rightarrow>
          redact_loop
            (take (e_start entity) redacted_text @ replacement @ drop (e_end entity) redacted_text)
            entities strategy)"

text \<open>\<^verbatim>\<open>sorted(entities, key=lambda x: x['start'], reverse=True)\<close>: descending, and entities
  with equal keys keep their order.\<close>

definition sorted_reverse :: "entity list \<Rightarrow> entity list" where
  "sorted_reverse entities = rev (sort_key e_start (rev entities))"

text \<open>Lines 138 to 147 of \<^verbatim>\<open>redact_pii\<close>: the rewriting of a text for a given entity list.\<close>

definition redact_entities :: "string \<Rightarrow> entity list \<Rightarrow> string \<Rightarrow> error + string" where
  "redact_entities text entities strategy = redact_loop text (sorted_reverse entities) strategy"

definition redact_pii ::
  "env \<Rightarrow> string \<Rightarrow> string \<Rightarrow> (error + string \<times> entity list) \<times> call list" where
  "redact_pii self text strategy =
     (case detect_pii_entities self text of
        (Inl err, calls) \<Rightarrow> (Inl err, calls)
      | (Inr entities, calls) \<Rightarrow>
          (case redact_entities text entities strategy of
             Inl err \<Rightarrow> (Inl err, calls)
           | Inr redacted_text \<Rightarrow> (Inr (redacted_text, entities), calls)))"

subsection \<open>\<^verbatim>\<open>contains_pii\<close> and \<^verbatim>\<open>get_pii_summary\<close>\<close>

definition contains_pii :: "env \<Rightarrow> string \<Rightarrow> (error + bool) \<times> call list" where
  "contains_pii self text =
     (case detect_pii_entities self text of
        (Inl err, calls) \<Rightarrow> (Inl err, calls)
      | (Inr entities, calls) \<Rightarrow> (Inr (length entities > 0), calls))"

definition get_pii_summary :: "env \<Rightarrow> string \<Rightarrow> (error + summary) \<times> call list" where
  "get_pii_summary self text =
     (case detect_pii_entities self text of
        (Inl err, calls) \<Rightarrow> (Inl err, calls)
      | (Inr entities, calls) \<Rightarrow>
          (case redact_pii self text ''redact'' of
             (Inl err, calls') \<Rightarrow> (Inl err, calls @ calls')
           | (Inr (safe, _), calls') \<Rightarrow>
               (Inr \<lparr>has_confidential_info = length entities > 0,
                     entities_found = length entities,
                     entity_types = set (map e_label entities),
                     safe_text = safe,
                     details = entities\<rparr>,
                calls @ calls')))"

section \<open>Notions used by the properties\<close>

subsection \<open>Invariants of an entity list\<close>

text \<open>The triple that the removal of duplicates compares.\<close>

definition entity_key :: "entity \<Rightarrow> string \<times> nat \<times> nat" where
  "entity_key e = (e_text e, e_start e, e_end e)"

text \<open>Two entities are disjoint when their half-open intervals \<open>[start, end)\<close> share no position.\<close>

definition disjoint_spans :: "entity \<Rightarrow> entity \<Rightarrow> bool" where
  "disjoint_spans a b = ({e_start a ..< e_end a} \<inter> {e_start b ..< e_end b} = {})"

fun pairwise_disjoint :: "entity list \<Rightarrow> bool" where
  "pairwise_disjoint [] = True"
| "pairwise_disjoint (e # es) = (list_all (disjoint_spans e) es \<and> pairwise_disjoint es)"

subsection \<open>The aggregation as the specification words it\<close>

text \<open>The entity built from a span of the recognizer and from a match of a pattern.\<close>

definition spacy_entity :: "string \<Rightarrow> ent \<Rightarrow> entity" where
  "spacy_entity lang ent =
     \<lparr>e_text = ent_text ent, e_label = ent_label ent, e_start = start_char ent,
      e_end = end_char ent, e_source = ''spacy'', e_language = lang\<rparr>"

definition regex_entity :: "string \<Rightarrow> string \<Rightarrow> rmatch \<Rightarrow> entity" where
  "regex_entity pattern_name lang m =
     \<lparr>e_text = m_group m, e_label = pattern_name, e_start = m_start m,
      e_end = m_end m, e_source = ''regex'', e_language = lang\<rparr>"

text \<open>The person label bound to a language code, and the test a span of the recognizer has to
  pass, in the words of the specification: the label of the language, a trimmed length above 2,
  not pure whitespace.\<close>

definition person_label :: "string \<Rightarrow> string" where
  "person_label lang = (if lang = ''en'' then ''PERSON'' else ''PER'')"

definition kept_span :: "string \<Rightarrow> ent \<Rightarrow> bool" where
  "kept_span lang ent =
     (ent_label ent = person_label lang \<and> length (strip (ent_text ent)) > 2 \<and> \<not> isspace (ent_text ent))"

text \<open>The candidates of the pattern matchers, in the order the patterns are declared and, for one
  pattern, in the order the engine yields its matches.\<close>

definition candidates :: "env \<Rightarrow> string \<Rightarrow> string \<Rightarrow> entity list" where
  "candidates self text lang =
     concat (map (\<lambda>(pattern_name, pattern).
                    map (regex_entity pattern_name lang) (finditer self pattern text))
                 regex_patterns)"

text \<open>The interval test of the specification, and one step of the overlap resolution: a candidate
  that intersects an accepted entity is discarded, any other is appended.\<close>

definition intersects :: "entity \<Rightarrow> entity \<Rightarrow> bool" where
  "intersects candidate existing =
     (\<not> (e_end candidate \<le> e_start existing \<or> e_start candidate \<ge> e_end existing))"

definition accept :: "entity list \<Rightarrow> entity \<Rightarrow> entity list" where
  "accept accepted candidate =
     (if list_ex (intersects candidate) accepted then accepted else accepted @ [candidate])"

text \<open>The name spans kept from the recognizer are pairwise disjoint (as those of spaCy's
  \<^verbatim>\<open>doc.ents\<close> are). Vacuously true when the classifier or the recognizer fails.\<close>

definition recognizer_spans_disjoint :: "env \<Rightarrow> string \<Rightarrow> bool" where
  "recognizer_spans_disjoint self text =
     (case fst (detect_language self text) of
        Inl _ \<Rightarrow> True
      | Inr lang \<Rightarrow>
          (case fst (recognize self text lang) of
             Inl _ \<Rightarrow> True
           | Inr entities \<Rightarrow> pairwise_disjoint entities))"

subsection \<open>The rewriting as the specification words it\<close>

text \<open>The replacement of a strategy that yields one (every strategy but \<^verbatim>\<open>block\<close>).\<close>

definition replacement_of :: "entity \<Rightarrow> string \<Rightarrow> string" where
  "replacement_of entity strategy =
     (case get_replacement entity strategy of Inr replacement \<Rightarrow> replacement | Inl _ \<Rightarrow> [])"

text \<open>The original text read from left to right from position \<open>pos\<close>: the characters before
  a span are copied, the span \<open>[start, end)\<close> is replaced by its replacement, and the characters
  after the last span are copied.\<close>

fun spans_replaced :: "string \<Rightarrow> nat \<Rightarrow> entity list \<Rightarrow> string \<Rightarrow> string" where
  "spans_replaced text pos [] strategy = drop pos text"
| "spans_replaced text pos (e # es) strategy =
     take (e_start e - pos) (drop pos text) @ replacement_of e strategy
       @ spans_replaced text (e_end e) es strategy"

subsection \<open>Failure of an external service\<close>

text \<open>The error of the classifier, or else of the recognizer that the returned code selects.\<close>

definition external_failure :: "env \<Rightarrow> string \<Rightarrow> error option" where
  "external_failure self text =
     (case llm self (prompt text) of
        Inl err \<Rightarrow> Some err
      | Inr response \<Rightarrow>
          (if language response = ''en'' then
             (case nlp_en self text of Inl err \<Rightarrow> Some err | Inr _ \<Rightarrow> None)
           else
             (case nlp_fr self text of Inl err \<Rightarrow> Some err | Inr _ \<Rightarrow> None)))"

subsection \<open>The last four digits of a text\<close>

definition isdigit :: "char \<Rightarrow> bool" where
  "isdigit c = (48 \<le> (of_char c :: nat) \<and> (of_char c :: nat) \<le> 57)"

definition last_four_digits :: "string \<Rightarrow> string" where
  "last_four_digits s = (let ds = filter isdigit s in drop (length ds - 4) ds)"

subsection \<open>Example environments\<close>

text \<open>The classifier and recognizers always fail and no pattern matches.\<close>

definition failing_env :: env where
  "failing_env = \<lparr>llm = (\<lambda>_. Inl (ExternalError ''classifier down'')),
                   nlp_en = (\<lambda>_. Inl (ExternalError ''recognizer down'')),
                   nlp_fr = (\<lambda>_. Inl (ExternalError ''recognizer down'')),
                   finditer = (\<lambda>_ _. [])\<rparr>"

text \<open>The classifier answers \<^verbatim>\<open>en\<close> and the English recognizer fails.\<close>

definition recognizer_down_env :: env where
  "recognizer_down_env = \<lparr>llm = (\<lambda>_. Inr \<lparr>language = ''en''\<rparr>),
                   nlp_en = (\<lambda>_. Inl (ExternalError ''recognizer down'')),
                   nlp_fr = (\<lambda>_. Inr []),
                   finditer = (\<lambda>_ _. [])\<rparr>"

text \<open>Nothing is detected.\<close>

definition quiet_env :: env where
  "quiet_env = \<lparr>llm = (\<lambda>_. Inr \<lparr>language = ''fr''\<rparr>), nlp_en = (\<lambda>_. Inr []), nlp_fr = (\<lambda>_. Inr []),
                 finditer = (\<lambda>_ _. [])\<rparr>"

text \<open>A name found by the English recognizer and an address matched by the EMAIL pattern.\<close>

definition contact_text :: string where
  "contact_text = ''Contact John Smith at john.smith@example.com''"

definition contact_env :: env where
  "contact_env =
     \<lparr>llm = (\<lambda>_. Inr \<lparr>language = ''en''\<rparr>),
      nlp_en = (\<lambda>_. Inr [\<lparr>ent_text = ''John Smith'', ent_label = ''PERSON'', start_char = 8, end_char = 18\<rparr>]),
      nlp_fr = (\<lambda>_. Inr []),
      finditer = (\<lambda>pattern _.
         if pattern = the (map_of regex_patterns ''EMAIL'')
         then [\<lparr>m_group = ''john.smith@example.com'', m_start = 22, m_end = 44\<rparr>] else [])\<rparr>"

definition contact_entities :: "entity list" where
  "contact_entities =
     [\<lparr>e_text = ''John Smith'', e_label = ''PERSON'', e_start = 8, e_end = 18,
        e_source = ''spacy'', e_language = ''en''\<rparr>,
      \<lparr>e_text = ''john.smith@example.com'', e_label = ''EMAIL'', e_start = 22, e_end = 44,
        e_source = ''regex'', e_language = ''en''\<rparr>]"

text \<open>A telephone number, matched by the PHONE pattern only.\<close>

definition phone_text :: string where
  "phone_text = ''My number is 555-123-4567''"

definition phone_entity :: "string \<Rightarrow> entity" where
  "phone_entity lang = \<lparr>e_text = ''555-123-4567'', e_label = ''PHONE'', e_start = 13, e_end = 25,
        e_source = ''regex'', e_language = lang\<rparr>"

definition phone_env :: env where
  "phone_env =
     \<lparr>llm = (\<lambda>_. Inr \<lparr>language = ''en''\<rparr>),
      nlp_en = (\<lambda>_. Inr []),
      nlp_fr = (\<lambda>_. Inr []),
      finditer = (\<lambda>pattern _.
         if pattern = the (map_of regex_patterns ''PHONE'')
         then [\<lparr>m_group = ''555-123-4567'', m_start = 13, m_end = 25\<rparr>] else [])\<rparr>"

text \<open>A telephone number written with spaces; the PHONE pattern matches all twelve characters.\<close>

definition spaced_phone_text :: string where
  "spaced_phone_text = ''Call 555 123 45 6 now''"

definition spaced_phone_entity :: entity where
  "spaced_phone_entity = \<lparr>e_text = ''555 123 45 6'', e_label = ''PHONE'', e_start = 5, e_end = 17,
        e_source = ''regex'', e_language = ''en''\<rparr>"

definition spaced_phone_env :: env where
  "spaced_phone_env =
     \<lparr>llm = (\<lambda>_. Inr \<lparr>language = ''en''\<rparr>),
      nlp_en = (\<lambda>_. Inr []),
      nlp_fr = (\<lambda>_. Inr []),
      finditer = (\<lambda>pattern _.
         if pattern = the (map_of regex_patterns ''PHONE'')
         then [\<lparr>m_group = ''555 123 45 6'', m_start = 5, m_end = 17\<rparr>] else [])\<rparr>"

text \<open>A recognizer that returns two overlapping name spans.\<close>

definition overlapping_env :: env where
  "overlapping_env =
     \<lparr>llm = (\<lambda>_. Inr \<lparr>language = ''en''\<rparr>),
      nlp_en = (\<lambda>_. Inr [\<lparr>ent_text = ''John Smith'', ent_label = ''PERSON'', start_char = 0, end_char = 10\<rparr>,
                          \<lparr>ent_text = ''Smith'', ent_label = ''PERSON'', start_char = 5, end_char = 10\<rparr>]),
      nlp_fr = (\<lambda>_. Inr []),
      finditer = (\<lambda>_ _. [])\<rparr>"

definition overlapping_entities :: "entity list" where
  "overlapping_entities =
     [\<lparr>e_text = ''John Smith'', e_label = ''PERSON'', e_start = 0, e_end = 10,
        e_source = ''spacy'', e_language = ''en''\<rparr>,
      \<lparr>e_text = ''Smith'', e_label = ''PERSON'', e_start = 5, e_end = 10,
        e_source = ''spacy'', e_language = ''en''\<rparr>]"

text \<open>A name span that a PHONE match overlaps, and a number that both the PHONE and the SSN
  pattern match.\<close>

definition agent_text :: string where
  "agent_text = ''Agent 007 SSN 123-45-6789''"

definition agent_env :: env where
  "agent_env =
     \<lparr>llm = (\<lambda>_. Inr \<lparr>language = ''en''\<rparr>),
      nlp_en = (\<lambda>_. Inr [\<lparr>ent_text = ''Agent 007'', ent_label = ''PERSON'', start_char = 0, end_char = 9\<rparr>]),
      nlp_fr = (\<lambda>_. Inr []),
      finditer = (\<lambda>pattern _.
         if pattern = the (map_of regex_patterns ''PHONE'')
         then [\<lparr>m_group = ''007'', m_start = 6, m_end = 9\<rparr>,
               \<lparr>m_group = ''123-45-6789'', m_start = 14, m_end = 25\<rparr>]
         else if pattern = the (map_of regex_patterns ''SSN'')
         then [\<lparr>m_group = ''123-45-6789'', m_start = 14, m_end = 25\<rparr>]
         else [])\<rparr>"

definition agent_entities :: "entity list" where
  "agent_entities =
     [\<lparr>e_text = ''Agent 007'', e_label = ''PERSON'', e_start = 0, e_end = 9,
        e_source = ''spacy'', e_language = ''en''\<rparr>,
      \<lparr>e_text = ''123-45-6789'', e_label = ''PHONE'', e_start = 14, e_end = 25,
        e_source = ''regex'', e_language = ''en''\<rparr>]"

text \<open>The classifier answers \<^verbatim>\<open>french\<close>, which is not the code \<^verbatim>\<open>en\<close>; the French recognizer
  returns a name that is too short, a span with another label and a person name.\<close>

definition marie_text :: string where
  "marie_text = ''Bonjour Marie Curie''"

definition marie_env :: env where
  "marie_env =
     \<lparr>llm = (\<lambda>_. Inr \<lparr>language = ''french''\<rparr>),
      nlp_en = (\<lambda>_. Inl (ExternalError ''not selected'')),
      nlp_fr = (\<lambda>_. Inr [\<lparr>ent_text = ''Bo'', ent_label = ''PER'', start_char = 0, end_char = 2\<rparr>,
                          \<lparr>ent_text = ''Bonjour'', ent_label = ''MISC'', start_char = 0, end_char = 7\<rparr>,
                          \<lparr>ent_text = ''Marie Curie'', ent_label = ''PER'', start_char = 8, end_char = 19\<rparr>]),
      finditer = (\<lambda>_ _. [])\<rparr>"

definition marie_entities :: "entity list" where
  "marie_entities =
     [\<lparr>e_text = ''Marie Curie'', e_label = ''PER'', e_start = 8, e_end = 19,
        e_source = ''spacy'', e_language = ''french''\<rparr>]"

section \<open>Properties\<close>

subsection \<open>Results and call logs of the operations\<close>

lemma fst_detect:
  "fst (detect_pii_entities self text) =
     (if text = [] \<or> strip text = [] then Inr []
      else (case fst (detect_language self text) of
              Inl err \<Rightarrow> Inl err
            | Inr lang \<Rightarrow>
                (case fst (recognize self text lang) of
                   Inl err \<Rightarrow> Inl err
                 | Inr entities \<Rightarrow> Inr (aggregate self text lang entities))))"
  by (simp add: detect_pii_entities_def split: prod.splits sum.splits)

lemma snd_detect:
  "snd (detect_pii_entities self text) =
     (if text = [] \<or> strip text = [] then []
      else (case fst (detect_language self text) of
              Inl err \<Rightarrow> snd (detect_language self text)
            | Inr lang \<Rightarrow> snd (detect_language self text) @ snd (recognize self text lang)))"
  by (simp add: detect_pii_entities_def split: prod.splits sum.splits)

lemma snd_recognize:
  "snd (recognize self text lang) = [if lang = ''en'' then NLP_en text else NLP_fr text]"
  by (simp add: recognize_def split: sum.splits)

lemma fst_redact_pii:
  "fst (redact_pii self text strategy) =
     (case fst (detect_pii_entities self text) of
        Inl err \<Rightarrow> Inl err
      | Inr entities \<Rightarrow>
          (case redact_entities text entities strategy of
             Inl err \<Rightarrow> Inl err
           | Inr redacted_text \<Rightarrow> Inr (redacted_text, entities)))"
  by (simp add: redact_pii_def split: prod.splits sum.splits)

lemma detect_cases:
  assumes "fst (detect_pii_entities self text) = Inr out"
  shows "out = [] \<or> (\<exists>lang entities. fst (detect_language self text) = Inr lang
            \<and> fst (recognize self text lang) = Inr entities \<and> out = aggregate self text lang entities)"
  using assms
  by (auto simp: detect_pii_entities_def split: if_splits prod.splits sum.splits)

subsection \<open>Blank input\<close>

lemma list_all_dropWhile: "list_all P (dropWhile P s) \<longleftrightarrow> list_all P s"
  by (induction s) auto

lemma strip_Nil_iff: "strip s = [] \<longleftrightarrow> list_all isspace_char s"
  using list_all_dropWhile[of isspace_char s]
  by (simp add: strip_def list_all_iff)

lemma blank_iff: "(text = [] \<or> strip text = []) \<longleftrightarrow> (text = [] \<or> isspace text)"
  by (auto simp: strip_Nil_iff isspace_def)

text \<open>
  C5. On a text that is empty or consists only of whitespace, \<^verbatim>\<open>detect_pii_entities\<close> returns
  the empty list and has made no external call (neither the classifier nor a recognizer),
  whatever these would do; \<^verbatim>\<open>contains_pii\<close> returns false, again without any call.
\<close>

theorem blank_text_short_circuit:
  "text = [] \<or> isspace text \<Longrightarrow>
     detect_pii_entities self text = (Inr [], []) \<and> contains_pii self text = (Inr False, [])"
  using blank_iff[of "text"] by (simp add: detect_pii_entities_def contains_pii_def)

theorem blank_text_short_circuit_witness:
  "isspace '' '' \<and> detect_pii_entities failing_env '' '' = (Inr [], []) \<and> contains_pii failing_env '' '' = (Inr False, [])"
proof -
  have h: "'' '' = [] \<or> isspace '' ''" by (simp add: isspace_def isspace_char_def)
  show ?thesis using h blank_text_short_circuit[OF h, of failing_env] by simp
qed

subsection \<open>The examples, evaluated\<close>

lemma strip_contact: "strip contact_text \<noteq> []"
  by (simp add: strip_def contact_text_def isspace_char_def)

lemma contact_detect_full:
  "detect_pii_entities contact_env contact_text =
     (Inr contact_entities, [LLM_invoke (prompt contact_text), NLP_en contact_text])"
  unfolding detect_pii_entities_def
  apply (simp add: strip_contact)
  apply (simp add: contact_text_def detect_language_def contact_env_def recognize_def sensitive_labels_en_def
    strip_def isspace_def isspace_char_def aggregate_def regex_patterns_def bs_def contact_entities_def)
  done

lemma contact_detect:
  "fst (detect_pii_entities contact_env contact_text) = Inr contact_entities"
  unfolding detect_pii_entities_def
  apply (simp add: strip_contact)
  apply (simp add: contact_text_def detect_language_def contact_env_def recognize_def sensitive_labels_en_def
    strip_def isspace_def isspace_char_def aggregate_def regex_patterns_def bs_def contact_entities_def)
  done

lemma contact_redact:
  "redact_entities contact_text contact_entities ''redact'' = Inr ''Contact [REDACTED_PERSON] at [REDACTED_EMAIL]''"
  by (simp add: redact_entities_def sorted_reverse_def contact_entities_def get_replacement_def contact_text_def)

lemma phone_detect: "fst (detect_pii_entities phone_env phone_text) = Inr [phone_entity ''en'']"
proof -
  have "strip phone_text \<noteq> []" by (simp add: strip_def phone_text_def isspace_char_def)
  then show ?thesis
    unfolding detect_pii_entities_def
    apply simp
    apply (simp add: phone_text_def detect_language_def phone_env_def recognize_def
      aggregate_def regex_patterns_def bs_def phone_entity_def)
    done
qed

lemma spaced_phone_detect:
  "fst (detect_pii_entities spaced_phone_env spaced_phone_text) = Inr [spaced_phone_entity]"
proof -
  have "strip spaced_phone_text \<noteq> []" by (simp add: strip_def spaced_phone_text_def isspace_char_def)
  then show ?thesis
    unfolding detect_pii_entities_def
    apply simp
    apply (simp add: spaced_phone_text_def detect_language_def spaced_phone_env_def recognize_def
      aggregate_def regex_patterns_def bs_def spaced_phone_entity_def)
    done
qed

lemma quiet_detect: "fst (detect_pii_entities quiet_env ''hello'') = Inr []"
  by (simp add: detect_pii_entities_def strip_def isspace_char_def detect_language_def quiet_env_def recognize_def
      aggregate_def regex_patterns_def)

lemma overlapping_detect:
  "fst (detect_pii_entities overlapping_env ''John Smith'') = Inr overlapping_entities"
  by (simp add: detect_pii_entities_def strip_def isspace_def isspace_char_def detect_language_def
      overlapping_env_def recognize_def sensitive_labels_en_def aggregate_def regex_patterns_def
      overlapping_entities_def)

lemma agent_detect:
  "detect_pii_entities agent_env agent_text =
     (Inr agent_entities, [LLM_invoke (prompt agent_text), NLP_en agent_text])"
proof -
  have "strip agent_text \<noteq> []" by (simp add: strip_def agent_text_def isspace_char_def)
  then show ?thesis
    unfolding detect_pii_entities_def
    apply simp
    apply (simp add: agent_text_def detect_language_def agent_env_def recognize_def sensitive_labels_en_def
      strip_def isspace_def isspace_char_def aggregate_def regex_patterns_def bs_def agent_entities_def)
    done
qed

lemma marie_detect:
  "detect_pii_entities marie_env marie_text =
     (Inr marie_entities, [LLM_invoke (prompt marie_text), NLP_fr marie_text])"
proof -
  have "strip marie_text \<noteq> []" by (simp add: strip_def marie_text_def isspace_char_def)
  then show ?thesis
    unfolding detect_pii_entities_def
    apply simp
    apply (simp add: marie_text_def detect_language_def marie_env_def recognize_def sensitive_labels_fr_def
      strip_def isspace_def isspace_char_def aggregate_def regex_patterns_def bs_def marie_entities_def)
    done
qed

subsection \<open>Failures of the external services\<close>

lemma detect_failure:
  assumes "text \<noteq> []" "\<not> isspace text" "external_failure self text = Some err"
  shows "fst (detect_pii_entities self text) = Inl err"
proof -
  have nb: "\<not> (text = [] \<or> strip text = [])"
    using assms(1,2) by (simp add: strip_Nil_iff isspace_def)
  show ?thesis
    using assms(3) nb
    by (auto simp: detect_pii_entities_def detect_language_def recognize_def external_failure_def
             split: sum.splits if_splits)
qed

text \<open>
  C7. On a text that is neither empty nor whitespace, when the language classifier fails, or
  when it answers and the recognizer it selects fails, \<^verbatim>\<open>detect_pii_entities\<close> fails with that
  same error, and so do \<^verbatim>\<open>redact_pii\<close> (under every strategy), \<^verbatim>\<open>contains_pii\<close> and
  \<^verbatim>\<open>get_pii_summary\<close>: no entity list, empty or partial, is returned in place of the error.
\<close>

theorem failure_propagates:
  assumes "text \<noteq> []" "\<not> isspace text" "external_failure self text = Some err"
  shows "fst (detect_pii_entities self text) = Inl err
       \<and> fst (redact_pii self text strategy) = Inl err
       \<and> fst (contains_pii self text) = Inl err
       \<and> fst (get_pii_summary self text) = Inl err"
proof -
  have d: "fst (detect_pii_entities self text) = Inl err"
    by (rule detect_failure[OF assms])
  then obtain calls where "detect_pii_entities self text = (Inl err, calls)"
    by (cases "detect_pii_entities self text") simp
  then show ?thesis
    by (simp add: redact_pii_def contains_pii_def get_pii_summary_def)
qed

theorem failure_propagates_witness:
  "''Bob'' \<noteq> [] \<and> \<not> isspace ''Bob''
   \<and> external_failure failing_env ''Bob'' = Some (ExternalError ''classifier down'')
   \<and> fst (detect_pii_entities failing_env ''Bob'') = Inl (ExternalError ''classifier down'')
   \<and> fst (redact_pii failing_env ''Bob'' ''redact'') = Inl (ExternalError ''classifier down'')
   \<and> fst (contains_pii failing_env ''Bob'') = Inl (ExternalError ''classifier down'')
   \<and> fst (get_pii_summary failing_env ''Bob'') = Inl (ExternalError ''classifier down'')
   \<and> external_failure recognizer_down_env ''Bob'' = Some (ExternalError ''recognizer down'')
   \<and> fst (detect_pii_entities recognizer_down_env ''Bob'') = Inl (ExternalError ''recognizer down'')
   \<and> fst (redact_pii recognizer_down_env ''Bob'' ''redact'') = Inl (ExternalError ''recognizer down'')
   \<and> fst (contains_pii recognizer_down_env ''Bob'') = Inl (ExternalError ''recognizer down'')
   \<and> fst (get_pii_summary recognizer_down_env ''Bob'') = Inl (ExternalError ''recognizer down'')"
proof -
  have h1: "''Bob'' \<noteq> []" by simp
  have h2: "\<not> isspace ''Bob''" by (simp add: isspace_def isspace_char_def)
  have h3: "external_failure failing_env ''Bob'' = Some (ExternalError ''classifier down'')"
    by (simp add: external_failure_def failing_env_def)
  have h4: "external_failure recognizer_down_env ''Bob'' = Some (ExternalError ''recognizer down'')"
    by (simp add: external_failure_def recognizer_down_env_def)
  show ?thesis
    using h1 h2 h3 h4
      failure_propagates[OF h1 h2 h3, of "''redact''"]
      failure_propagates[OF h1 h2 h4, of "''redact''"]
    by simp
qed

subsection \<open>Replacements\<close>

lemma get_replacement_fallback:
  "strategy \<noteq> ''redact'' \<Longrightarrow> strategy \<noteq> ''mask'' \<Longrightarrow> strategy \<noteq> ''block'' \<Longrightarrow>
     get_replacement e strategy = get_replacement e ''redact''"
  by (simp add: get_replacement_def)

lemma redact_loop_cong:
  "(\<And>e. get_replacement e s = get_replacement e s') \<Longrightarrow> redact_loop t es s = redact_loop t es s'"
  by (induction es arbitrary: t) (auto split: sum.splits)

lemma redact_loop_redact: "\<exists>r. redact_loop t es ''redact'' = Inr r"
  by (induction es arbitrary: t) (auto simp: get_replacement_def)

lemma redact_entities_redact: "\<exists>r. redact_entities text entities ''redact'' = Inr r"
  by (simp add: redact_entities_def redact_loop_redact)

lemma redact_loop_block:
  "redact_loop t (e # es) ''block'' =
     Inl (ValueError (''Confidential information detected and blocked: '' @ e_label e @ '' - '' @ e_text e))"
  by (simp add: get_replacement_def)

lemma split_on_absent: "c \<notin> set s \<Longrightarrow> split_on c s = [s]"
  by (induction s) auto

lemma split_on_first: "c \<notin> set l \<Longrightarrow> split_on c (l @ c # d) = l # split_on c d"
  by (induction l) auto

lemma split_on_two: "c \<in> set s \<Longrightarrow> \<exists>p0 p1 ps. split_on c s = p0 # p1 # ps"
proof (induction s)
  case Nil then show ?case by simp
next
  case (Cons x xs)
  show ?case
  proof (cases "x = c")
    case True
    then show ?thesis by (cases xs) (auto split: list.splits)
  next
    case False
    with Cons obtain p0 p1 ps where "split_on c xs = p0 # p1 # ps" by auto
    with False show ?thesis by simp
  qed
qed

lemma get_replacement_total:
  assumes "strategy \<noteq> ''block''"
  shows "get_replacement e strategy = Inr (replacement_of e strategy)"
proof -
  have "\<exists>r. get_replacement e strategy = Inr r"
  proof (cases "CHR ''@'' \<in> set (e_text e)")
    case True
    from split_on_two[OF this] obtain p0 p1 ps where "split_on CHR ''@'' (e_text e) = p0 # p1 # ps"
      by blast
    then show ?thesis using assms by (simp add: get_replacement_def Let_def)
  next
    case False
    then show ?thesis using assms by (simp add: get_replacement_def Let_def)
  qed
  then show ?thesis by (auto simp: replacement_of_def)
qed

text \<open>
  C9. For a strategy other than \<^verbatim>\<open>redact\<close>, \<^verbatim>\<open>mask\<close> and \<^verbatim>\<open>block\<close>, \<^verbatim>\<open>redact_pii\<close> returns
  exactly what it returns under \<^verbatim>\<open>redact\<close> (result and calls): every replacement is the
  marker \<^verbatim>\<open>[REDACTED_<label>]\<close>, and the rewriting of an entity list raises no error.
\<close>

theorem unknown_strategy_is_redact:
  assumes "strategy \<noteq> ''redact''" "strategy \<noteq> ''mask''" "strategy \<noteq> ''block''"
  shows "redact_pii self text strategy = redact_pii self text ''redact''
       \<and> get_replacement entity strategy = Inr (''[REDACTED_'' @ e_label entity @ '']'')
       \<and> (\<exists>r. redact_entities text entities strategy = Inr r)"
proof -
  have eq: "\<And>t es. redact_loop t es strategy = redact_loop t es ''redact''"
    by (rule redact_loop_cong) (rule get_replacement_fallback[OF assms])
  have 1: "redact_pii self text strategy = redact_pii self text ''redact''"
    by (simp add: redact_pii_def redact_entities_def eq split: prod.splits sum.splits)
  have 2: "get_replacement entity strategy = Inr (''[REDACTED_'' @ e_label entity @ '']'')"
    using assms by (simp add: get_replacement_def)
  have 3: "\<exists>r. redact_entities text entities strategy = Inr r"
    using redact_loop_redact by (simp add: redact_entities_def eq)
  from 1 2 3 show ?thesis by blast
qed

theorem unknown_strategy_is_redact_witness:
  "''hash'' \<noteq> ''redact'' \<and> ''hash'' \<noteq> ''mask'' \<and> ''hash'' \<noteq> ''block''
   \<and> fst (redact_pii contact_env contact_text ''hash'')
       = Inr (''Contact [REDACTED_PERSON] at [REDACTED_EMAIL]'', contact_entities)
   \<and> get_replacement (hd contact_entities) ''hash'' = Inr ''[REDACTED_PERSON]''
   \<and> redact_entities contact_text contact_entities ''hash''
       = Inr ''Contact [REDACTED_PERSON] at [REDACTED_EMAIL]''"
proof -
  have h1: "''hash'' \<noteq> ''redact''" and h2: "''hash'' \<noteq> ''mask''" and h3: "''hash'' \<noteq> ''block''"
    by simp_all
  have r: "fst (redact_pii contact_env contact_text ''redact'')
       = Inr (''Contact [REDACTED_PERSON] at [REDACTED_EMAIL]'', contact_entities)"
    by (simp add: fst_redact_pii contact_detect contact_redact)
  have e: "redact_entities contact_text contact_entities ''hash''
       = Inr ''Contact [REDACTED_PERSON] at [REDACTED_EMAIL]''"
    by (simp add: redact_entities_def sorted_reverse_def contact_entities_def get_replacement_def contact_text_def)
  show ?thesis
    using unknown_strategy_is_redact[OF h1 h2 h3, of contact_env contact_text "hd contact_entities" contact_entities] r e
    by (simp add: contact_entities_def)
qed

lemma mask_email:
  assumes "e_label entity = ''EMAIL''" "e_text entity = local_part @ ''@'' @ domain"
    "CHR ''@'' \<notin> set local_part" "CHR ''@'' \<notin> set domain"
  shows "get_replacement entity ''mask'' = Inr (take 2 local_part @ ''***@'' @ domain)"
  using assms by (simp add: get_replacement_def Let_def split_on_first split_on_absent)

lemma mask_phone:
  assumes "e_label entity = ''PHONE''" "CHR ''@'' \<notin> set (e_text entity)"
  shows "get_replacement entity ''mask'' =
     Inr (if length (e_text entity) > 4
          then ''***-***-'' @ drop (length (e_text entity) - 4) (e_text entity) else ''***'')"
  using assms by (simp add: get_replacement_def Let_def)

lemma mask_other:
  assumes "e_label entity \<noteq> ''EMAIL''" "e_label entity \<noteq> ''PHONE''"
  shows "get_replacement entity ''mask'' = Inr (''***'' @ e_label entity @ ''***'')"
  using assms by (simp add: get_replacement_def)

lemma mask_phone_example:
  assumes "fst (detect_pii_entities self phone_text) = Inr [phone_entity lang]"
  shows "fst (redact_pii self phone_text ''mask'') = Inr (''My number is ***-***-4567'', [phone_entity lang])"
  using assms
  by (simp add: fst_redact_pii redact_entities_def sorted_reverse_def phone_entity_def get_replacement_def phone_text_def)

text \<open>
  The claim C6 as stated fails: under \<^verbatim>\<open>mask\<close> a PHONE entity longer than 4 characters keeps
  its last four characters, which are not its last four digits when the number is written
  with separators. The text \<^verbatim>\<open>Call 555 123 45 6 now\<close> becomes \<^verbatim>\<open>Call ***-***-45 6 now\<close>,
  while the last four digits of the match are 3456.
\<close>

theorem mask_last_four_digits_counterexample:
  "fst (redact_pii spaced_phone_env spaced_phone_text ''mask'')
      = Inr (''Call ***-***-45 6 now'', [spaced_phone_entity])
   \<and> get_replacement spaced_phone_entity ''mask'' = Inr ''***-***-45 6''
   \<and> last_four_digits (e_text spaced_phone_entity) = ''3456''
   \<and> get_replacement spaced_phone_entity ''mask''
        \<noteq> Inr (''***-***-'' @ last_four_digits (e_text spaced_phone_entity))"
proof -
  have 1: "get_replacement spaced_phone_entity ''mask'' = Inr ''***-***-45 6''"
    by (simp add: get_replacement_def spaced_phone_entity_def)
  have 2: "last_four_digits (e_text spaced_phone_entity) = ''3456''"
    by (simp add: last_four_digits_def isdigit_def spaced_phone_entity_def)
  have 3: "redact_entities spaced_phone_text [spaced_phone_entity] ''mask'' = Inr ''Call ***-***-45 6 now''"
    by (simp add: redact_entities_def sorted_reverse_def 1) (simp add: spaced_phone_text_def spaced_phone_entity_def)
  have 4: "fst (redact_pii spaced_phone_env spaced_phone_text ''mask'')
      = Inr (''Call ***-***-45 6 now'', [spaced_phone_entity])"
    by (simp add: fst_redact_pii spaced_phone_detect 3)
  from 1 2 4 show ?thesis by simp
qed

text \<open>
  C6, amended. Under \<^verbatim>\<open>mask\<close>: an EMAIL entity whose text is a local part, one \<^verbatim>\<open>@\<close> and a
  domain is replaced by the first two characters of the local part, \<^verbatim>\<open>***@\<close> and the domain;
  a PHONE entity (its text has no \<^verbatim>\<open>@\<close>) is replaced by \<^verbatim>\<open>***-***-\<close> followed by the last four
  characters of the matched text when that text is longer than 4 characters, and by \<^verbatim>\<open>***\<close>
  otherwise; an entity of any other label is replaced by \<^verbatim>\<open>***<label>***\<close>. When the only
  entity detected in \<^verbatim>\<open>My number is 555-123-4567\<close> is the PHONE match of the number, masking
  yields \<^verbatim>\<open>My number is ***-***-4567\<close>.
\<close>

theorem mask_replacement:
  "(e_label entity = ''EMAIL'' \<and> e_text entity = local_part @ ''@'' @ domain
      \<and> CHR ''@'' \<notin> set local_part \<and> CHR ''@'' \<notin> set domain
      \<longrightarrow> get_replacement entity ''mask'' = Inr (take 2 local_part @ ''***@'' @ domain))
   \<and> (e_label entity = ''PHONE'' \<and> CHR ''@'' \<notin> set (e_text entity)
      \<longrightarrow> get_replacement entity ''mask'' =
            Inr (if length (e_text entity) > 4
                 then ''***-***-'' @ drop (length (e_text entity) - 4) (e_text entity)
                 else ''***''))
   \<and> (e_label entity \<noteq> ''EMAIL'' \<and> e_label entity \<noteq> ''PHONE''
      \<longrightarrow> get_replacement entity ''mask'' = Inr (''***'' @ e_label entity @ ''***''))
   \<and> (fst (detect_pii_entities self phone_text) = Inr [phone_entity lang]
      \<longrightarrow> fst (redact_pii self phone_text ''mask'')
            = Inr (''My number is ***-***-4567'', [phone_entity lang]))"
  using mask_email[of entity local_part domain] mask_phone[of entity] mask_other[of entity]
    mask_phone_example[of self lang]
  by blast

theorem mask_replacement_witness:
  "get_replacement (contact_entities ! 1) ''mask'' = Inr ''jo***@example.com''
   \<and> get_replacement (phone_entity ''en'') ''mask'' = Inr ''***-***-4567''
   \<and> get_replacement (phone_entity ''en'' \<lparr>e_text := ''4567''\<rparr>) ''mask'' = Inr ''***''
   \<and> get_replacement (contact_entities ! 0) ''mask'' = Inr ''***PERSON***''
   \<and> fst (detect_pii_entities phone_env phone_text) = Inr [phone_entity ''en'']
   \<and> fst (redact_pii phone_env phone_text ''mask'')
        = Inr (''My number is ***-***-4567'', [phone_entity ''en''])"
proof -
  have 1: "get_replacement (contact_entities ! 1) ''mask'' = Inr ''jo***@example.com''"
    using mask_replacement[of "contact_entities ! 1" "''john.smith''" "''example.com''"]
    by (simp add: contact_entities_def)
  have 2: "get_replacement (phone_entity ''en'') ''mask'' = Inr ''***-***-4567''"
    using mask_replacement[of "phone_entity ''en''"]
    by (simp add: phone_entity_def)
  have 3: "get_replacement (phone_entity ''en'' \<lparr>e_text := ''4567''\<rparr>) ''mask'' = Inr ''***''"
    using mask_replacement[of "phone_entity ''en'' \<lparr>e_text := ''4567''\<rparr>"]
    by (simp add: phone_entity_def)
  have 4: "get_replacement (contact_entities ! 0) ''mask'' = Inr ''***PERSON***''"
    using mask_replacement[of "contact_entities ! 0"]
    by (simp add: contact_entities_def)
  have 5: "fst (redact_pii phone_env phone_text ''mask'')
        = Inr (''My number is ***-***-4567'', [phone_entity ''en''])"
    using mask_replacement[of _ _ _ phone_env "''en''"] phone_detect by blast
  from 1 2 3 4 5 phone_detect show ?thesis by blast
qed

subsection \<open>The order of processing\<close>

lemma detect_sorted:
  assumes "fst (detect_pii_entities self text) = Inr out"
  shows "sorted (map e_start out)"
  using assms
  by (auto simp: detect_pii_entities_def aggregate_def split: if_splits prod.splits sum.splits)

lemma sorted_le_last:
  assumes "sorted (map f xs)" "x \<in> set xs"
  shows "f x \<le> f (last xs)"
proof -
  from assms(2) obtain i where i: "i < length xs" "xs ! i = x"
    by (metis in_set_conv_nth)
  then have ne: "xs \<noteq> []" by auto
  have "map f xs ! i \<le> map f xs ! (length xs - 1)"
    using assms(1) i(1) by (intro sorted_nth_mono) auto
  then show ?thesis using i ne by (simp add: last_conv_nth)
qed

lemma sorted_reverse_hd:
  assumes "entities \<noteq> []"
  shows "hd (sorted_reverse entities) \<in> set entities"
    and "\<forall>x\<in>set entities. e_start x \<le> e_start (hd (sorted_reverse entities))"
proof -
  let ?s = "sort_key e_start (rev entities)"
  have ne: "?s \<noteq> []" using assms by (metis length_0_conv length_rev length_sort)
  have hd: "hd (sorted_reverse entities) = last ?s"
    using ne by (simp add: sorted_reverse_def hd_rev)
  have st: "set ?s = set entities" by simp
  with last_in_set[OF ne] show "hd (sorted_reverse entities) \<in> set entities"
    unfolding hd by blast
  have srt: "sorted (map e_start ?s)" by simp
  show "\<forall>x\<in>set entities. e_start x \<le> e_start (hd (sorted_reverse entities))"
    unfolding hd using sorted_le_last[OF srt] st by blast
qed

lemma sorted_max_last:
  assumes "sorted (map f xs)" "xs \<noteq> []" "e \<in> set xs" "\<forall>x\<in>set xs. f x \<le> f e"
  shows "f e = f (last xs)"
proof -
  have "f (last xs) \<le> f e" using assms(2,4) last_in_set by blast
  moreover have "f e \<le> f (last xs)" by (rule sorted_le_last[OF assms(1,3)])
  ultimately show ?thesis by simp
qed

lemma insort_key_last: "\<forall>y\<in>set ys. f y < f x \<Longrightarrow> insort_key f x ys = ys @ [x]"
  for f :: "'a \<Rightarrow> nat"
  by (induction ys) auto

lemma sort_key_rev_strict:
  fixes f :: "'a \<Rightarrow> nat"
  shows "sorted_wrt (\<lambda>a b. f a < f b) xs \<Longrightarrow> sort_key f (rev xs) = xs"
proof (induction xs rule: rev_induct)
  case Nil then show ?case by simp
next
  case (snoc z zs)
  then have "sort_key f (rev zs) = zs" and "\<forall>y\<in>set zs. f y < f z"
    by (auto simp: sorted_wrt_append)
  then show ?case by (simp add: insort_key_last)
qed

text \<open>
  C4. When detection yields the list \<open>entities\<close>: if it is empty, \<^verbatim>\<open>redact_pii\<close> under \<^verbatim>\<open>block\<close>
  returns the text unchanged with the empty list; otherwise it fails with the \<^verbatim>\<open>ValueError\<close>
  whose message carries the label and the text of the first entity of the processing order.
  That entity is one of the detected ones, no detected entity starts after it, and its start
  is the start of the last element of the detected list. The failure is the whole result: no
  rewritten text is returned.
\<close>

theorem block_strategy:
  assumes "fst (detect_pii_entities self text) = Inr entities"
  shows "fst (redact_pii self text ''block'') =
           (if entities = [] then Inr (text, [])
            else Inl (ValueError (''Confidential information detected and blocked: ''
                        @ e_label (hd (sorted_reverse entities)) @ '' - ''
                        @ e_text (hd (sorted_reverse entities)))))
       \<and> (entities \<noteq> [] \<longrightarrow>
            hd (sorted_reverse entities) \<in> set entities
          \<and> (\<forall>x\<in>set entities. e_start x \<le> e_start (hd (sorted_reverse entities)))
          \<and> e_start (hd (sorted_reverse entities)) = e_start (last entities))"
proof (cases "entities = []")
  case True
  then show ?thesis using assms
    by (simp add: fst_redact_pii redact_entities_def sorted_reverse_def)
next
  case False
  then have "sorted_reverse entities \<noteq> []"
    by (metis length_0_conv length_rev length_sort sorted_reverse_def)
  then obtain e es where es: "sorted_reverse entities = e # es"
    by (cases "sorted_reverse entities") auto
  have 1: "fst (redact_pii self text ''block'') =
      Inl (ValueError (''Confidential information detected and blocked: ''
                        @ e_label (hd (sorted_reverse entities)) @ '' - ''
                        @ e_text (hd (sorted_reverse entities))))"
    using assms by (simp add: fst_redact_pii redact_entities_def es redact_loop_block del: redact_loop.simps)
  note h = sorted_reverse_hd[OF False]
  have 2: "e_start (hd (sorted_reverse entities)) = e_start (last entities)"
    by (rule sorted_max_last[OF detect_sorted[OF assms] False h])
  show ?thesis using False 1 2 h by simp
qed

theorem block_strategy_witness:
  "fst (detect_pii_entities contact_env contact_text) = Inr contact_entities
   \<and> fst (redact_pii contact_env contact_text ''block'')
        = Inl (ValueError ''Confidential information detected and blocked: EMAIL - john.smith@example.com'')
   \<and> hd (sorted_reverse contact_entities) = last contact_entities
   \<and> fst (detect_pii_entities quiet_env ''hello'') = Inr []
   \<and> fst (redact_pii quiet_env ''hello'' ''block'') = Inr (''hello'', [])"
proof -
  have h: "hd (sorted_reverse contact_entities) = last contact_entities"
    by (simp add: sorted_reverse_def contact_entities_def)
  have l: "last contact_entities = contact_entities ! 1" "contact_entities \<noteq> []"
    by (simp_all add: contact_entities_def)
  have e: "e_label (contact_entities ! 1) = ''EMAIL''" "e_text (contact_entities ! 1) = ''john.smith@example.com''"
    by (simp_all add: contact_entities_def)
  show ?thesis
    using block_strategy[OF contact_detect] block_strategy[OF quiet_detect] contact_detect quiet_detect h l e
    by simp
qed

subsection \<open>The summary\<close>

text \<open>
  C10. When detection on a text returns the list \<open>entities\<close> after the calls \<open>calls\<close>, then
  \<^verbatim>\<open>get_pii_summary\<close> makes these calls twice (detection runs once directly and once inside
  \<^verbatim>\<open>redact_pii\<close>, with the same result, the services being functions of the text), and its
  fields agree: \<^verbatim>\<open>has_confidential_info\<close> holds exactly when \<^verbatim>\<open>details\<close> is not empty,
  \<^verbatim>\<open>entities_found\<close> is its length, \<^verbatim>\<open>entity_types\<close> is the set of its labels, and
  \<^verbatim>\<open>safe_text\<close> is the rewriting of that same list under \<^verbatim>\<open>redact\<close>, which cannot fail.
\<close>

theorem summary_consistent:
  assumes "detect_pii_entities self text = (Inr entities, calls)"
  shows "\<exists>safe. redact_entities text entities ''redact'' = Inr safe
       \<and> redact_pii self text ''redact'' = (Inr (safe, entities), calls)
       \<and> get_pii_summary self text =
           (Inr \<lparr>has_confidential_info = (entities \<noteq> []),
                 entities_found = length entities,
                 entity_types = set (map e_label entities),
                 safe_text = safe,
                 details = entities\<rparr>, calls @ calls)"
proof -
  obtain safe where s: "redact_entities text entities ''redact'' = Inr safe"
    using redact_entities_redact by blast
  have r: "redact_pii self text ''redact'' = (Inr (safe, entities), calls)"
    using assms s by (simp add: redact_pii_def)
  have "get_pii_summary self text =
           (Inr \<lparr>has_confidential_info = (entities \<noteq> []),
                 entities_found = length entities,
                 entity_types = set (map e_label entities),
                 safe_text = safe,
                 details = entities\<rparr>, calls @ calls)"
    using assms r by (simp add: get_pii_summary_def)
  with s r show ?thesis by blast
qed

theorem summary_consistent_witness:
  "detect_pii_entities contact_env contact_text =
     (Inr contact_entities, [LLM_invoke (prompt contact_text), NLP_en contact_text])
   \<and> redact_pii contact_env contact_text ''redact'' =
       (Inr (''Contact [REDACTED_PERSON] at [REDACTED_EMAIL]'', contact_entities),
        [LLM_invoke (prompt contact_text), NLP_en contact_text])
   \<and> get_pii_summary contact_env contact_text =
       (Inr \<lparr>has_confidential_info = True, entities_found = 2,
             entity_types = {''PERSON'', ''EMAIL''},
             safe_text = ''Contact [REDACTED_PERSON] at [REDACTED_EMAIL]'',
             details = contact_entities\<rparr>,
        [LLM_invoke (prompt contact_text), NLP_en contact_text,
         LLM_invoke (prompt contact_text), NLP_en contact_text])"
proof -
  have l: "contact_entities \<noteq> []" "length contact_entities = 2"
    "set (map e_label contact_entities) = {''PERSON'', ''EMAIL''}"
    by (simp_all add: contact_entities_def)
  show ?thesis
    using summary_consistent[OF contact_detect_full] contact_detect_full contact_redact l
    by auto
qed

subsection \<open>The rewriting of a text\<close>

lemma disjoint_spans_iff:
  "disjoint_spans a b \<longleftrightarrow>
     e_end a \<le> e_start b \<or> e_end b \<le> e_start a \<or> e_end a \<le> e_start a \<or> e_end b \<le> e_start b"
proof -
  have "disjoint_spans a b \<longleftrightarrow> \<not> max (e_start a) (e_start b) < min (e_end a) (e_end b)"
    by (simp add: disjoint_spans_def Int_atLeastLessThan)
  then show ?thesis by (auto simp: max_def min_def split: if_splits)
qed

lemma pairwise_disjoint_sorted_wrt: "pairwise_disjoint es = sorted_wrt disjoint_spans es"
  by (induction es) (auto simp: list_all_iff)

lemma chain_of_hyps:
  assumes "sorted (map e_start es)" "pairwise_disjoint es" "\<forall>e\<in>set es. e_start e < e_end e"
  shows "sorted_wrt (\<lambda>a b. e_end a \<le> e_start b) es"
  using assms
proof (induction es)
  case Nil then show ?case by simp
next
  case (Cons x xs)
  have "\<forall>y\<in>set xs. e_end x \<le> e_start y"
  proof
    fix y assume y: "y \<in> set xs"
    then have "disjoint_spans x y" "e_start x \<le> e_start y" "e_start x < e_end x" "e_start y < e_end y"
      using Cons.prems by (auto simp: list_all_iff)
    then show "e_end x \<le> e_start y" by (auto simp: disjoint_spans_iff)
  qed
  with Cons show ?case by (auto)
qed

lemma sorted_reverse_rev:
  assumes "sorted_wrt (\<lambda>a b. e_end a \<le> e_start b) es" "\<forall>e\<in>set es. e_start e < e_end e"
  shows "sorted_reverse es = rev es"
proof -
  have "sorted_wrt (\<lambda>a b. e_start a < e_start b) es"
    using assms
    by (induction es) (auto intro: less_le_trans)
  then show ?thesis by (simp add: sorted_reverse_def sort_key_rev_strict)
qed

lemma spans_replaced_snoc:
  assumes "sorted_wrt (\<lambda>a b. e_end a \<le> e_start b) (es @ [e])" "\<forall>x\<in>set (es @ [e]). e_start x < e_end x"
  shows "spans_replaced t pos (es @ [e]) s =
         spans_replaced (take (e_start e) t) pos es s @ replacement_of e s @ drop (e_end e) t"
  using assms
proof (induction es arbitrary: pos)
  case Nil
  then show ?case by (simp add: drop_take)
next
  case (Cons x xs)
  then have le: "e_start x \<le> e_start e" by (auto simp: sorted_wrt_append intro: less_imp_le order_trans)
  have "take (e_start x - pos) (drop pos (take (e_start e) t)) = take (e_start x - pos) (drop pos t)"
    using le by (simp add: drop_take min_def)
  with Cons show ?case by simp
qed

lemma redact_loop_rev:
  assumes "\<And>e. get_replacement e s = Inr (replacement_of e s)"
    and "sorted_wrt (\<lambda>a b. e_end a \<le> e_start b) es" "\<forall>x\<in>set es. e_start x < e_end x \<and> e_end x \<le> length t"
  shows "redact_loop (t @ r) (rev es) s = Inr (spans_replaced t 0 es s @ r)"
  using assms(2,3)
proof (induction es arbitrary: t r rule: rev_induct)
  case Nil then show ?case by simp
next
  case (snoc e es)
  have b: "e_start e < e_end e" "e_end e \<le> length t" using snoc.prems by auto
  have step: "take (e_start e) (t @ r) @ replacement_of e s @ drop (e_end e) (t @ r)
      = take (e_start e) t @ (replacement_of e s @ drop (e_end e) t @ r)"
    using b by simp
  have ch: "sorted_wrt (\<lambda>a b. e_end a \<le> e_start b) es" using snoc.prems by (simp add: sorted_wrt_append)
  have bd: "\<forall>x\<in>set es. e_start x < e_end x \<and> e_end x \<le> length (take (e_start e) t)"
    using snoc.prems b by (auto simp: sorted_wrt_append)
  have pos: "\<forall>x\<in>set (es @ [e]). e_start x < e_end x" using snoc.prems by auto
  show ?case
    using snoc.IH[OF ch bd, of "replacement_of e s @ drop (e_end e) t @ r"]
    by (simp add: assms(1) step spans_replaced_snoc[OF snoc.prems(1) pos] del: take_append drop_append)
qed

text \<open>
  C3. For a text and an entity list sorted by ascending start, pairwise disjoint and with
  \<open>start < end \<le> length text\<close> for every entry: the replacements are applied from the last
  entity to the first (descending start), and under a strategy that replaces, the result is
  the original text with exactly each span \<open>[start, end)\<close> replaced by the replacement of the
  strategy and every other character kept. Under \<^verbatim>\<open>block\<close> with a non-empty list the call fails
  on the last entity instead (C4). The same holds for \<^verbatim>\<open>redact_pii\<close> when detection returns that
  list. The functions are pure: the text passed in is a value and cannot be changed.
\<close>

theorem redact_entities_spans_replaced:
  assumes "sorted (map e_start entities)" "pairwise_disjoint entities"
    "\<forall>e\<in>set entities. e_start e < e_end e \<and> e_end e \<le> length text"
  shows "sorted_reverse entities = rev entities
       \<and> redact_entities text entities strategy =
           (if strategy = ''block'' \<and> entities \<noteq> []
            then Inl (ValueError (''Confidential information detected and blocked: ''
                        @ e_label (last entities) @ '' - '' @ e_text (last entities)))
            else Inr (spans_replaced text 0 entities strategy))
       \<and> (fst (detect_pii_entities self text) = Inr entities \<longrightarrow>
            fst (redact_pii self text strategy) =
              (if strategy = ''block'' \<and> entities \<noteq> []
               then Inl (ValueError (''Confidential information detected and blocked: ''
                        @ e_label (last entities) @ '' - '' @ e_text (last entities)))
               else Inr (spans_replaced text 0 entities strategy, entities)))"
proof -
  have pos: "\<forall>e\<in>set entities. e_start e < e_end e" using assms(3) by blast
  have ch: "sorted_wrt (\<lambda>a b. e_end a \<le> e_start b) entities"
    by (rule chain_of_hyps[OF assms(1,2) pos])
  have order: "sorted_reverse entities = rev entities"
    by (rule sorted_reverse_rev[OF ch pos])
  have res: "redact_entities text entities strategy =
           (if strategy = ''block'' \<and> entities \<noteq> []
            then Inl (ValueError (''Confidential information detected and blocked: ''
                        @ e_label (last entities) @ '' - '' @ e_text (last entities)))
            else Inr (spans_replaced text 0 entities strategy))"
  proof (cases "strategy = ''block''")
    case False
    have "redact_loop (text @ []) (rev entities) strategy = Inr (spans_replaced text 0 entities strategy @ [])"
      by (rule redact_loop_rev[OF get_replacement_total[OF False] ch assms(3)])
    then show ?thesis using False by (simp add: redact_entities_def order)
  next
    case True
    show ?thesis
    proof (cases entities rule: rev_cases)
      case Nil
      then show ?thesis by (simp add: redact_entities_def sorted_reverse_def)
    next
      case (snoc es e)
      then show ?thesis using True order
        by (simp add: redact_entities_def redact_loop_block del: redact_loop.simps)
    qed
  qed
  have pii: "fst (redact_pii self text strategy) =
              (if strategy = ''block'' \<and> entities \<noteq> []
               then Inl (ValueError (''Confidential information detected and blocked: ''
                        @ e_label (last entities) @ '' - '' @ e_text (last entities)))
               else Inr (spans_replaced text 0 entities strategy, entities))"
    if "fst (detect_pii_entities self text) = Inr entities"
    using that by (simp add: fst_redact_pii res)
  from order res pii show ?thesis by blast
qed

theorem redact_entities_spans_replaced_witness:
  "sorted (map e_start contact_entities) \<and> pairwise_disjoint contact_entities
   \<and> list_all (\<lambda>e. e_start e < e_end e \<and> e_end e \<le> length contact_text) contact_entities
   \<and> sorted_reverse contact_entities = rev contact_entities
   \<and> redact_entities contact_text contact_entities ''redact''
        = Inr ''Contact [REDACTED_PERSON] at [REDACTED_EMAIL]''
   \<and> redact_entities contact_text contact_entities ''mask''
        = Inr ''Contact ***PERSON*** at jo***@example.com''
   \<and> fst (detect_pii_entities contact_env contact_text) = Inr contact_entities
   \<and> fst (redact_pii contact_env contact_text ''mask'')
        = Inr (''Contact ***PERSON*** at jo***@example.com'', contact_entities)"
proof -
  have h1: "sorted (map e_start contact_entities)" by (simp add: contact_entities_def)
  have h2: "pairwise_disjoint contact_entities" by (simp add: contact_entities_def disjoint_spans_iff)
  have h3: "\<forall>e\<in>set contact_entities. e_start e < e_end e \<and> e_end e \<le> length contact_text"
    by (simp add: contact_entities_def contact_text_def)
  have s1: "spans_replaced contact_text 0 contact_entities ''redact'' = ''Contact [REDACTED_PERSON] at [REDACTED_EMAIL]''"
    by (simp add: contact_entities_def contact_text_def replacement_of_def get_replacement_def)
  have s2: "spans_replaced contact_text 0 contact_entities ''mask'' = ''Contact ***PERSON*** at jo***@example.com''"
    by (simp add: contact_entities_def contact_text_def replacement_of_def get_replacement_def)
  show ?thesis
    using h1 h2 h3 s1 s2 contact_detect
      redact_entities_spans_replaced[OF h1 h2 h3, of "''redact''" contact_env]
      redact_entities_spans_replaced[OF h1 h2 h3, of "''mask''" contact_env]
    by (simp add: list_all_iff)
qed

subsection \<open>The loops of the aggregation\<close>

lemma ner_loop_filter:
  "ner_loop labels lang ents acc =
     acc @ map (spacy_entity lang)
             (filter (\<lambda>ent. ent_label ent \<in> labels \<and> length (strip (ent_text ent)) > 2
                             \<and> \<not> isspace (ent_text ent)) ents)"
  by (induction ents arbitrary: acc) (auto simp: spacy_entity_def)

lemma recognize_kept:
  "fst (recognize self text lang) =
     (case (if lang = ''en'' then nlp_en self text else nlp_fr self text) of
        Inl err \<Rightarrow> Inl err
      | Inr ents \<Rightarrow> Inr (map (spacy_entity lang) (filter (kept_span lang) ents)))"
proof -
  have k: "\<And>l. kept_span l = (\<lambda>ent. ent_label ent = person_label l
             \<and> length (strip (ent_text ent)) > 2 \<and> \<not> isspace (ent_text ent))"
    by (rule ext) (simp add: kept_span_def)
  show ?thesis
    by (auto simp: recognize_def ner_loop_filter k person_label_def
          sensitive_labels_en_def sensitive_labels_fr_def split: sum.splits)
qed

lemma overlap_iff:
  "overlap m entities \<longleftrightarrow> list_ex (intersects (regex_entity pattern_name lang m)) entities"
  by (induction entities) (auto simp: intersects_def regex_entity_def)

lemma match_loop_Cons:
  "match_loop pattern_name lang (m # ms) entities =
     match_loop pattern_name lang ms (accept entities (regex_entity pattern_name lang m))"
  by (simp add: accept_def overlap_iff[of m entities pattern_name lang] regex_entity_def)

lemma match_loop_foldl:
  "match_loop pattern_name lang ms entities =
     foldl accept entities (map (regex_entity pattern_name lang) ms)"
  by (induction ms arbitrary: entities) (simp_all add: match_loop_Cons del: match_loop.simps(2))

lemma pattern_loop_foldl:
  "pattern_loop self text lang ps entities =
     foldl accept entities
       (concat (map (\<lambda>(pattern_name, pattern).
                    map (regex_entity pattern_name lang) (finditer self pattern text)) ps))"
  by (induction ps arbitrary: entities) (auto simp: match_loop_foldl)

lemma aggregate_foldl:
  "aggregate self text lang entities =
     sort_key e_start (unique_loop (foldl accept entities (candidates self text lang)) {} [])"
  by (simp add: aggregate_def pattern_loop_foldl candidates_def)

lemma foldl_accept_append:
  "\<exists>acc. foldl accept entities cs = entities @ acc \<and> set acc \<subseteq> set cs
       \<and> (\<forall>a\<in>set acc. \<forall>e\<in>set entities. \<not> intersects a e)"
proof (induction cs arbitrary: entities)
  case Nil then show ?case by simp
next
  case (Cons c cs)
  from Cons[of "accept entities c"] obtain acc where acc:
    "foldl accept (accept entities c) cs = accept entities c @ acc" "set acc \<subseteq> set cs"
    "\<forall>a\<in>set acc. \<forall>e\<in>set (accept entities c). \<not> intersects a e" by blast
  show ?case
  proof (cases "list_ex (intersects c) entities")
    case True
    then have "accept entities c = entities" by (simp add: accept_def)
    with acc show ?thesis by (intro exI[of _ acc]) auto
  next
    case False
    then have a: "accept entities c = entities @ [c]" by (simp add: accept_def)
    from False have "\<forall>e\<in>set entities. \<not> intersects c e" by (simp add: list_ex_iff)
    with acc a show ?thesis by (intro exI[of _ "c # acc"]) auto
  qed
qed

lemma not_intersects_disjoint: "\<not> intersects c e \<Longrightarrow> disjoint_spans e c"
  by (auto simp: intersects_def disjoint_spans_iff)

lemma accept_disjoint:
  "sorted_wrt disjoint_spans entities \<Longrightarrow> sorted_wrt disjoint_spans (accept entities c)"
  by (auto simp: accept_def sorted_wrt_append list_ex_iff not_intersects_disjoint)

lemma foldl_accept_disjoint:
  "sorted_wrt disjoint_spans entities \<Longrightarrow> sorted_wrt disjoint_spans (foldl accept entities cs)"
  by (induction cs arbitrary: entities) (auto simp: accept_disjoint)

lemma unique_loop_Cons:
  "unique_loop (e # es) seen uq =
     (if entity_key e \<notin> seen then unique_loop es (insert (entity_key e) seen) (uq @ [e])
      else unique_loop es seen uq)"
  by (simp add: entity_key_def Let_def)

lemma unique_loop_sorted_wrt:
  "sorted_wrt P (uq @ es) \<Longrightarrow> sorted_wrt P (unique_loop es seen uq)"
proof (induction es arbitrary: seen uq)
  case Nil then show ?case by simp
next
  case (Cons e es)
  have a: "sorted_wrt P ((uq @ [e]) @ es)" using Cons.prems by simp
  have b: "sorted_wrt P (uq @ es)" using Cons.prems by (auto simp: sorted_wrt_append)
  show ?case using Cons.IH[OF a] Cons.IH[OF b]
    by (simp add: unique_loop_Cons del: unique_loop.simps(2))
qed

lemma unique_loop_distinct:
  "entity_key ` set uq \<subseteq> seen \<Longrightarrow> distinct (map entity_key uq) \<Longrightarrow>
     distinct (map entity_key (unique_loop es seen uq))"
proof (induction es arbitrary: seen uq)
  case Nil then show ?case by simp
next
  case (Cons e es)
  show ?case
  proof (cases "entity_key e \<in> seen")
    case True
    then show ?thesis using Cons by (simp add: unique_loop_Cons del: unique_loop.simps(2))
  next
    case False
    have "entity_key ` set (uq @ [e]) \<subseteq> insert (entity_key e) seen" using Cons.prems by auto
    moreover have "distinct (map entity_key (uq @ [e]))" using Cons.prems False by auto
    ultimately have "distinct (map entity_key (unique_loop es (insert (entity_key e) seen) (uq @ [e])))"
      by (rule Cons.IH)
    then show ?thesis using False by (simp add: unique_loop_Cons del: unique_loop.simps(2))
  qed
qed

lemma unique_loop_keeps: "set uq \<subseteq> set (unique_loop es seen uq)"
proof (induction es arbitrary: seen uq)
  case Nil then show ?case by simp
next
  case (Cons e es)
  show ?case
    using Cons[of uq seen] Cons[of "uq @ [e]" "insert (entity_key e) seen"]
    by (auto simp: unique_loop_Cons simp del: unique_loop.simps(2))
qed

lemma unique_loop_subset: "set (unique_loop es seen uq) \<subseteq> set uq \<union> set es"
proof (induction es arbitrary: seen uq)
  case Nil then show ?case by simp
next
  case (Cons e es)
  show ?case
    using Cons[of seen uq] Cons[of "insert (entity_key e) seen" "uq @ [e]"]
    by (auto simp: unique_loop_Cons simp del: unique_loop.simps(2))
qed

lemma unique_loop_first:
  "e \<in> set es \<Longrightarrow> entity_key e \<notin> seen \<Longrightarrow>
     \<exists>y. find (\<lambda>y. entity_key y = entity_key e) es = Some y \<and> y \<in> set (unique_loop es seen uq)"
proof (induction es arbitrary: seen uq)
  case Nil then show ?case by simp
next
  case (Cons x xs)
  show ?case
  proof (cases "entity_key x = entity_key e")
    case True
    then have "x \<in> set (unique_loop (x # xs) seen uq)"
      using Cons.prems(2) unique_loop_keeps[of "uq @ [x]" xs "insert (entity_key x) seen"]
      by (auto simp: unique_loop_Cons simp del: unique_loop.simps(2))
    with True show ?thesis by simp
  next
    case False
    then have e: "e \<in> set xs" using Cons.prems(1) by auto
    have k: "entity_key e \<notin> insert (entity_key x) seen" using False Cons.prems(2) by auto
    show ?thesis
      using False Cons.IH[OF e k, of "uq @ [x]"] Cons.IH[OF e Cons.prems(2), of uq]
      by (auto simp: unique_loop_Cons simp del: unique_loop.simps(2))
  qed
qed

lemma insort_sorted_wrt:
  "sorted_wrt P xs \<Longrightarrow> \<forall>y\<in>set xs. P x y \<and> P y x \<Longrightarrow> sorted_wrt P (insort_key f x xs)"
  by (induction xs) (auto simp: set_insort_key)

lemma sort_key_sorted_wrt:
  assumes "\<And>a b. P a b \<Longrightarrow> P b a"
  shows "sorted_wrt P xs \<Longrightarrow> sorted_wrt P (sort_key f xs)"
proof (induction xs)
  case Nil then show ?case by simp
next
  case (Cons x xs)
  then have "sorted_wrt P (sort_key f xs)" "\<forall>y\<in>set (sort_key f xs). P x y \<and> P y x"
    using assms by auto
  then show ?case by (simp add: insort_sorted_wrt)
qed

lemma distinct_map_insort:
  "distinct (map g (insort_key f x xs)) \<longleftrightarrow> g x \<notin> g ` set xs \<and> distinct (map g xs)"
  by (induction xs) (auto simp: set_insort_key)

lemma distinct_map_sort_key: "distinct (map g (sort_key f xs)) \<longleftrightarrow> distinct (map g xs)"
  by (induction xs) (auto simp: distinct_map_insort)

lemma disjoint_spans_sym: "disjoint_spans a b \<Longrightarrow> disjoint_spans b a"
  by (auto simp: disjoint_spans_def)

lemma aggregate_invariants:
  "sorted (map e_start (aggregate self text lang entities))"
  "distinct (map entity_key (aggregate self text lang entities))"
  "pairwise_disjoint entities \<Longrightarrow> pairwise_disjoint (aggregate self text lang entities)"
proof -
  show "sorted (map e_start (aggregate self text lang entities))" by (simp add: aggregate_def)
  show "distinct (map entity_key (aggregate self text lang entities))"
    by (simp add: aggregate_def distinct_map_sort_key unique_loop_distinct)
  assume "pairwise_disjoint entities"
  then have "sorted_wrt disjoint_spans (pattern_loop self text lang regex_patterns entities)"
    by (simp add: pairwise_disjoint_sorted_wrt pattern_loop_foldl foldl_accept_disjoint)
  then have "sorted_wrt disjoint_spans (unique_loop (pattern_loop self text lang regex_patterns entities) {} [])"
    by (intro unique_loop_sorted_wrt) simp
  then show "pairwise_disjoint (aggregate self text lang entities)"
    unfolding aggregate_def pairwise_disjoint_sorted_wrt
    by (rule sort_key_sorted_wrt[rotated]) (rule disjoint_spans_sym)
qed

lemma find_in_prefix:
  "x \<in> set xs \<Longrightarrow> P x \<Longrightarrow> \<exists>y. find P (xs @ ys) = Some y \<and> y \<in> set xs \<and> P y"
  by (induction xs) auto

lemma spacy_entities_key_inj:
  assumes "fst (recognize self text lang) = Inr entities" "x \<in> set entities" "y \<in> set entities"
    "entity_key x = entity_key y"
  shows "x = y"
proof -
  from assms(1) obtain ents where e: "entities = map (spacy_entity lang) (filter (kept_span lang) ents)"
    by (auto simp: recognize_kept split: sum.splits)
  from assms(2,3) e obtain a b where ab: "x = spacy_entity lang a" "kept_span lang a"
    "y = spacy_entity lang b" "kept_span lang b" by auto
  then have "ent_label a = ent_label b" by (simp add: kept_span_def)
  with ab assms(4) show ?thesis by (simp add: spacy_entity_def entity_key_def)
qed

lemma spacy_entities_source:
  assumes "fst (recognize self text lang) = Inr entities" "x \<in> set entities"
  shows "e_source x = ''spacy''"
  using assms by (auto simp: recognize_kept spacy_entity_def split: sum.splits)

lemma candidates_source: "x \<in> set (candidates self text lang) \<Longrightarrow> e_source x = ''regex''"
  by (auto simp: candidates_def regex_entity_def)

lemma aggregate_members:
  assumes "fst (recognize self text lang) = Inr entities"
  shows "\<forall>r\<in>set entities. r \<in> set (aggregate self text lang entities)"
    and "\<forall>e\<in>set (aggregate self text lang entities).
           (e \<in> set entities \<and> e_source e = ''spacy'')
         \<or> (e_source e = ''regex'' \<and> (\<forall>r\<in>set entities. \<not> intersects e r))"
proof -
  let ?acc = "foldl accept entities (candidates self text lang)"
  let ?out = "aggregate self text lang entities"
  have out: "set ?out = set (unique_loop ?acc {} [])" by (simp add: aggregate_foldl)
  obtain acc where acc: "?acc = entities @ acc" "set acc \<subseteq> set (candidates self text lang)"
    "\<forall>a\<in>set acc. \<forall>e\<in>set entities. \<not> intersects a e"
    using foldl_accept_append by blast
  show "\<forall>r\<in>set entities. r \<in> set ?out"
  proof
    fix r assume r: "r \<in> set entities"
    then have "r \<in> set ?acc" by (simp add: acc(1))
    from unique_loop_first[OF this, of "{}" "[]"] obtain y where
      y: "find (\<lambda>y. entity_key y = entity_key r) ?acc = Some y" "y \<in> set (unique_loop ?acc {} [])"
      by auto
    from find_in_prefix[of r entities "\<lambda>y. entity_key y = entity_key r" acc] r
    obtain y' where y': "find (\<lambda>y. entity_key y = entity_key r) (entities @ acc) = Some y'"
      "y' \<in> set entities" "entity_key y' = entity_key r" by auto
    from y(1) y'(1) have "y = y'" by (simp add: acc(1))
    moreover have "y' = r" by (rule spacy_entities_key_inj[OF assms y'(2) r y'(3)])
    ultimately show "r \<in> set ?out" using y(2) out by simp
  qed
  show "\<forall>e\<in>set ?out. (e \<in> set entities \<and> e_source e = ''spacy'')
         \<or> (e_source e = ''regex'' \<and> (\<forall>r\<in>set entities. \<not> intersects e r))"
  proof
    fix e assume "e \<in> set ?out"
    then have "e \<in> set ?acc" using unique_loop_subset[of ?acc "{}" "[]"] out by auto
    then have "e \<in> set entities \<or> e \<in> set acc" by (auto simp: acc(1))
    then show "(e \<in> set entities \<and> e_source e = ''spacy'')
         \<or> (e_source e = ''regex'' \<and> (\<forall>r\<in>set entities. \<not> intersects e r))"
      using spacy_entities_source[OF assms] candidates_source acc(2,3) by blast
  qed
qed

text \<open>
  The claim C1 as stated fails: it is claimed for whatever spans the recognizer returns, and
  the name spans of the recognizer are never tested against each other. When the recognizer
  returns the spans \<open>[0, 10)\<close> and \<open>[5, 10)\<close> on \<^verbatim>\<open>John Smith\<close>, both are returned.
\<close>

theorem overlapping_recognizer_spans_counterexample:
  "fst (detect_pii_entities overlapping_env ''John Smith'') = Inr overlapping_entities
   \<and> \<not> pairwise_disjoint overlapping_entities"
  using overlapping_detect by (simp add: overlapping_entities_def disjoint_spans_iff)

text \<open>
  C1, amended. Whatever the classifier, the recognizer and the patterns return, the list
  returned by \<^verbatim>\<open>detect_pii_entities\<close> is sorted by ascending start and no two of its elements
  share the triple (text, start, end); when the name spans kept from the recognizer are
  pairwise disjoint, all intervals \<open>[start, end)\<close> of the returned list are pairwise disjoint.
\<close>

theorem detect_output_invariants:
  assumes "fst (detect_pii_entities self text) = Inr out"
  shows "sorted (map e_start out) \<and> distinct (map entity_key out)
       \<and> (recognizer_spans_disjoint self text \<longrightarrow> pairwise_disjoint out)"
proof -
  from detect_cases[OF assms] show ?thesis
  proof
    assume "out = []" then show ?thesis by simp
  next
    assume "\<exists>lang entities. fst (detect_language self text) = Inr lang
            \<and> fst (recognize self text lang) = Inr entities \<and> out = aggregate self text lang entities"
    then obtain lang entities where *: "fst (detect_language self text) = Inr lang"
      "fst (recognize self text lang) = Inr entities" "out = aggregate self text lang entities"
      by blast
    then have "recognizer_spans_disjoint self text \<longrightarrow> pairwise_disjoint entities"
      by (simp add: recognizer_spans_disjoint_def)
    with *(3) show ?thesis using aggregate_invariants by blast
  qed
qed

theorem detect_output_invariants_witness:
  "fst (detect_pii_entities agent_env agent_text) = Inr agent_entities
   \<and> recognizer_spans_disjoint agent_env agent_text
   \<and> sorted (map e_start agent_entities) \<and> distinct (map entity_key agent_entities)
   \<and> pairwise_disjoint agent_entities"
proof -
  have h: "fst (detect_pii_entities agent_env agent_text) = Inr agent_entities"
    by (simp add: agent_detect)
  have d: "recognizer_spans_disjoint agent_env agent_text"
    by (simp add: recognizer_spans_disjoint_def detect_language_def recognize_def agent_env_def
        sensitive_labels_en_def strip_def isspace_def isspace_char_def)
  show ?thesis using detect_output_invariants[OF h] h d by simp
qed

text \<open>
  C2. On a text that is neither empty nor whitespace, with \<open>entities\<close> the spans kept from the
  recognizer: the returned list is the sorted, duplicate-free form of the list obtained by
  taking the candidates of the patterns in declaration order and testing each against the
  entities accepted so far, starting from \<open>entities\<close>, with the test
  \<open>\<not> (candidate.end \<le> existing.start \<or> candidate.start \<ge> existing.end)\<close>; a step never removes an
  accepted entity. Hence every span kept from the recognizer is in the returned list, and no
  entity of the returned list that comes from a pattern intersects such a span.
\<close>

theorem aggregation_precedence:
  assumes "text \<noteq> []" "\<not> isspace text" "fst (detect_language self text) = Inr lang"
    "fst (recognize self text lang) = Inr entities"
  shows "\<exists>out. fst (detect_pii_entities self text) = Inr out
       \<and> out = sort_key e_start (unique_loop (foldl accept entities (candidates self text lang)) {} [])
       \<and> (\<forall>accepted candidate. prefix accepted (accept accepted candidate))
       \<and> (\<forall>r\<in>set entities. r \<in> set out)
       \<and> (\<forall>e\<in>set out. e_source e = ''regex'' \<longrightarrow> (\<forall>r\<in>set entities. \<not> intersects e r))"
proof -
  have nb: "\<not> (text = [] \<or> strip text = [])"
    using assms(1,2) by (simp add: strip_Nil_iff isspace_def)
  have 1: "fst (detect_pii_entities self text) = Inr (aggregate self text lang entities)"
    using nb assms(3,4) by (simp add: fst_detect)
  have 2: "\<forall>accepted candidate. prefix accepted (accept accepted candidate)"
    by (simp add: accept_def)
  have 4: "\<forall>e\<in>set (aggregate self text lang entities).
      e_source e = ''regex'' \<longrightarrow> (\<forall>r\<in>set entities. \<not> intersects e r)"
    using aggregate_members(2)[OF assms(4)] by fastforce
  from 1 2 aggregate_members(1)[OF assms(4)] 4 aggregate_foldl[of self "text" lang entities]
  show ?thesis by metis
qed

theorem aggregation_precedence_witness:
  "agent_text \<noteq> [] \<and> \<not> isspace agent_text
   \<and> fst (detect_language agent_env agent_text) = Inr ''en''
   \<and> fst (recognize agent_env agent_text ''en'') = Inr [hd agent_entities]
   \<and> candidates agent_env agent_text ''en'' =
        [regex_entity ''PHONE'' ''en'' \<lparr>m_group = ''007'', m_start = 6, m_end = 9\<rparr>,
         regex_entity ''PHONE'' ''en'' \<lparr>m_group = ''123-45-6789'', m_start = 14, m_end = 25\<rparr>,
         regex_entity ''SSN'' ''en'' \<lparr>m_group = ''123-45-6789'', m_start = 14, m_end = 25\<rparr>]
   \<and> fst (detect_pii_entities agent_env agent_text) = Inr agent_entities
   \<and> hd agent_entities \<in> set agent_entities
   \<and> \<not> intersects (agent_entities ! 1) (hd agent_entities)"
proof -
  have h1: "agent_text \<noteq> []" by (simp add: agent_text_def)
  have h2: "\<not> isspace agent_text" by (simp add: agent_text_def isspace_def isspace_char_def)
  have h3: "fst (detect_language agent_env agent_text) = Inr ''en''"
    by (simp add: detect_language_def agent_env_def)
  have h4: "fst (recognize agent_env agent_text ''en'') = Inr [hd agent_entities]"
    by (simp add: recognize_def agent_env_def agent_entities_def sensitive_labels_en_def
        strip_def isspace_def isspace_char_def)
  have c: "candidates agent_env agent_text ''en'' =
        [regex_entity ''PHONE'' ''en'' \<lparr>m_group = ''007'', m_start = 6, m_end = 9\<rparr>,
         regex_entity ''PHONE'' ''en'' \<lparr>m_group = ''123-45-6789'', m_start = 14, m_end = 25\<rparr>,
         regex_entity ''SSN'' ''en'' \<lparr>m_group = ''123-45-6789'', m_start = 14, m_end = 25\<rparr>]"
    by (simp add: candidates_def agent_env_def regex_patterns_def bs_def)
  have d: "fst (detect_pii_entities agent_env agent_text) = Inr agent_entities"
    by (simp add: agent_detect)
  have s: "e_source (agent_entities ! 1) = ''regex''" "agent_entities ! 1 \<in> set agent_entities"
    by (simp_all add: agent_entities_def)
  from aggregation_precedence[OF h1 h2 h3 h4] d
  have "hd agent_entities \<in> set agent_entities"
    and "\<forall>e\<in>set agent_entities. e_source e = ''regex'' \<longrightarrow> \<not> intersects e (hd agent_entities)"
    by auto
  with s have "hd agent_entities \<in> set agent_entities"
    "\<not> intersects (agent_entities ! 1) (hd agent_entities)" by blast+
  with h1 h2 h3 h4 c d show ?thesis by blast
qed

text \<open>
  C8. On a text that is neither empty nor whitespace for which the classifier answers: the
  English recognizer is called exactly when the answer is \<^verbatim>\<open>en\<close>, and the French one for every
  other answer, without any error. When the recognizer called returns spans, the entities kept
  are, in order, those whose label is the person label of the answer (\<^verbatim>\<open>PERSON\<close> for \<^verbatim>\<open>en\<close>,
  \<^verbatim>\<open>PER\<close> otherwise), whose trimmed text is longer than 2 characters and which are not pure
  whitespace, each with source \<^verbatim>\<open>spacy\<close>; they are exactly the entities of source \<^verbatim>\<open>spacy\<close> in
  the list returned by \<^verbatim>\<open>detect_pii_entities\<close>.
\<close>

theorem recognizer_dispatch:
  assumes "text \<noteq> []" "\<not> isspace text" "llm self (prompt text) = Inr response"
  shows "snd (detect_pii_entities self text) =
           [LLM_invoke (prompt text), if language response = ''en'' then NLP_en text else NLP_fr text]
       \<and> (\<forall>ents. (if language response = ''en'' then nlp_en self text else nlp_fr self text) = Inr ents
            \<longrightarrow> fst (recognize self text (language response)) =
                  Inr (map (spacy_entity (language response)) (filter (kept_span (language response)) ents))
              \<and> (\<exists>out. fst (detect_pii_entities self text) = Inr out
                   \<and> set (filter (\<lambda>e. e_source e = ''spacy'') out) =
                       set (map (spacy_entity (language response))
                              (filter (kept_span (language response)) ents))))"
proof -
  let ?lang = "language response"
  have nb: "\<not> (text = [] \<or> strip text = [])"
    using assms(1,2) by (simp add: strip_Nil_iff isspace_def)
  have dl: "detect_language self text = (Inr ?lang, [LLM_invoke (prompt text)])"
    using assms(3) by (simp add: detect_language_def)
  have 1: "snd (detect_pii_entities self text) =
           [LLM_invoke (prompt text), if ?lang = ''en'' then NLP_en text else NLP_fr text]"
    using nb by (simp add: snd_detect dl snd_recognize)
  have 2: "fst (recognize self text ?lang) = Inr (map (spacy_entity ?lang) (filter (kept_span ?lang) ents))
        \<and> (\<exists>out. fst (detect_pii_entities self text) = Inr out
                   \<and> set (filter (\<lambda>e. e_source e = ''spacy'') out) =
                       set (map (spacy_entity ?lang) (filter (kept_span ?lang) ents)))"
    if h: "(if ?lang = ''en'' then nlp_en self text else nlp_fr self text) = Inr ents" for ents
  proof -
    let ?ner = "map (spacy_entity ?lang) (filter (kept_span ?lang) ents)"
    let ?out = "aggregate self text ?lang ?ner"
    have r: "fst (recognize self text ?lang) = Inr ?ner"
      using h by (simp add: recognize_kept)
    have d: "fst (detect_pii_entities self text) = Inr ?out"
      using nb r by (simp add: fst_detect dl)
    have "set (filter (\<lambda>e. e_source e = ''spacy'') ?out) = set ?ner"
    proof
      show "set (filter (\<lambda>e. e_source e = ''spacy'') ?out) \<subseteq> set ?ner"
        using aggregate_members(2)[OF r] by auto
      show "set ?ner \<subseteq> set (filter (\<lambda>e. e_source e = ''spacy'') ?out)"
        using aggregate_members(1)[OF r] spacy_entities_source[OF r] by auto
    qed
    with r d show ?thesis by blast
  qed
  from 1 2 show ?thesis by blast
qed

theorem recognizer_dispatch_witness:
  "marie_text \<noteq> [] \<and> \<not> isspace marie_text
   \<and> llm marie_env (prompt marie_text) = Inr \<lparr>language = ''french''\<rparr>
   \<and> snd (detect_pii_entities marie_env marie_text) = [LLM_invoke (prompt marie_text), NLP_fr marie_text]
   \<and> fst (recognize marie_env marie_text ''french'') = Inr marie_entities
   \<and> fst (detect_pii_entities marie_env marie_text) = Inr marie_entities
   \<and> contact_text \<noteq> [] \<and> \<not> isspace contact_text
   \<and> llm contact_env (prompt contact_text) = Inr \<lparr>language = ''en''\<rparr>
   \<and> snd (detect_pii_entities contact_env contact_text) = [LLM_invoke (prompt contact_text), NLP_en contact_text]
   \<and> fst (recognize contact_env contact_text ''en'') = Inr [hd contact_entities]"
proof -
  have m1: "marie_text \<noteq> []" by (simp add: marie_text_def)
  have m2: "\<not> isspace marie_text" by (simp add: marie_text_def isspace_def isspace_char_def)
  have m3: "llm marie_env (prompt marie_text) = Inr \<lparr>language = ''french''\<rparr>"
    by (simp add: marie_env_def)
  have m4: "nlp_fr marie_env marie_text =
      Inr [\<lparr>ent_text = ''Bo'', ent_label = ''PER'', start_char = 0, end_char = 2\<rparr>,
           \<lparr>ent_text = ''Bonjour'', ent_label = ''MISC'', start_char = 0, end_char = 7\<rparr>,
           \<lparr>ent_text = ''Marie Curie'', ent_label = ''PER'', start_char = 8, end_char = 19\<rparr>]"
    by (simp add: marie_env_def)
  have m5: "map (spacy_entity ''french'') (filter (kept_span ''french'')
          [\<lparr>ent_text = ''Bo'', ent_label = ''PER'', start_char = 0, end_char = 2\<rparr>,
           \<lparr>ent_text = ''Bonjour'', ent_label = ''MISC'', start_char = 0, end_char = 7\<rparr>,
           \<lparr>ent_text = ''Marie Curie'', ent_label = ''PER'', start_char = 8, end_char = 19\<rparr>])
        = marie_entities"
    by (simp add: kept_span_def person_label_def spacy_entity_def marie_entities_def
        strip_def isspace_def isspace_char_def)
  have c1: "contact_text \<noteq> []" by (simp add: contact_text_def)
  have c2: "\<not> isspace contact_text" by (simp add: contact_text_def isspace_def isspace_char_def)
  have c3: "llm contact_env (prompt contact_text) = Inr \<lparr>language = ''en''\<rparr>"
    by (simp add: contact_env_def)
  have c4: "nlp_en contact_env contact_text =
      Inr [\<lparr>ent_text = ''John Smith'', ent_label = ''PERSON'', start_char = 8, end_char = 18\<rparr>]"
    by (simp add: contact_env_def)
  have c5: "map (spacy_entity ''en'') (filter (kept_span ''en'')
          [\<lparr>ent_text = ''John Smith'', ent_label = ''PERSON'', start_char = 8, end_char = 18\<rparr>])
        = [hd contact_entities]"
    by (simp add: kept_span_def person_label_def spacy_entity_def contact_entities_def
        strip_def isspace_def isspace_char_def)
  show ?thesis
    using recognizer_dispatch[OF m1 m2 m3] recognizer_dispatch[OF c1 c2 c3]
      m1 m2 m3 m4 m5 c1 c2 c3 c4 c5 marie_detect
    by simp
qed

end
